theory Spec2Isabelle
  imports Main "HOL-Library.Sublist"
begin

section \<open>The log context (src/src/context/LogContext.tsx)\<close>

text \<open>
  \<^verbatim>\<open>type LogEntry = { timestamp: string; data: string }\<close>.  The provider keeps two
  pieces of React state, \<^verbatim>\<open>isLogging\<close> (initially false) and \<^verbatim>\<open>logData\<close>
  (initially empty).  Strings are lists of 8-bit code units.
\<close>

record LogEntry =
  timestamp :: string
  data :: string

record LogContext =
  isLogging :: bool
  logData :: "LogEntry list"


definition startLogging :: "LogContext \<Rightarrow> LogContext" where
  "startLogging c = c\<lparr>isLogging := True\<rparr>"

definition stopLogging :: "LogContext \<Rightarrow> LogContext" where
  "stopLogging c = c\<lparr>isLogging := False\<rparr>"

text \<open>
  \<^verbatim>\<open>appendLog\<close> stamps the entry with \<^verbatim>\<open>new Date().toISOString()\<close>; the clock reading
  is the first argument.
\<close>

definition appendLog :: "string \<Rightarrow> string \<Rightarrow> LogContext \<Rightarrow> LogContext" where
  "appendLog now d c = c\<lparr>logData := logData c @ [\<lparr>timestamp = now, data = d\<rparr>]\<rparr>"

definition clearLogs :: "LogContext \<Rightarrow> LogContext" where
  "clearLogs c = c\<lparr>logData := []\<rparr>"

section \<open>JavaScript string helpers\<close>

text \<open>
  \<^verbatim>\<open>String.prototype.includes\<close>: is the second string a contiguous part of the first?
  The search tries every start position from left to right.
\<close>

fun str_includes :: "string \<Rightarrow> string \<Rightarrow> bool" where
  "str_includes [] sub = (sub = [])"
| "str_includes (c # cs) sub = (prefix sub (c # cs) \<or> str_includes cs sub)"

text \<open>
  \<^verbatim>\<open>String.prototype.toLowerCase\<close> on code units below 256: the letters A to Z and the
  Latin-1 capitals U+00C0 to U+00DE (the multiplication sign U+00D7 apart) move up by 32,
  every other unit stays.
\<close>

definition lower_unit :: "char \<Rightarrow> char" where
  "lower_unit c =
     (let n = (of_char c :: int)
      in if (65 \<le> n \<and> n \<le> 90) \<or> (192 \<le> n \<and> n \<le> 222 \<and> n \<noteq> 215)
         then char_of (n + 32) else c)"

definition toLowerCase :: "string \<Rightarrow> string" where
  "toLowerCase s = map lower_unit s"

section \<open>The paired-device filter (src/src/screens/MainScreen.tsx, fetchPairedDevices)\<close>

text \<open>
  A \<^verbatim>\<open>BluetoothDevice\<close> as the screen reads it: a name that may be missing, an address
  and the bonded flag.
\<close>

record BluetoothDevice =
  name :: "string option"
  address :: string
  bonded :: bool

definition dummyNames :: "string list" where
  "dummyNames = [''Unknown Device'', ''Unknown'', ''Bluetooth Device'', ''BT Device'',
     ''Device'', ''Phone'', ''Mobile'', ''Android'', ''Test Device'', ''Dummy Device'']"

text \<open>
  \<^verbatim>\<open>dummyNames.some(dummy => device.name && device.name.toLowerCase().includes(dummy.toLowerCase()))\<close>:
  a missing or empty name is falsy, so no entry matches it.
\<close>

definition isDummyName :: "BluetoothDevice \<Rightarrow> bool" where
  "isDummyName device =
     list_ex (\<lambda>dummy. case name device of
                 None \<Rightarrow> False
               | Some n \<Rightarrow> n \<noteq> [] \<and> str_includes (toLowerCase n) (toLowerCase dummy))
       dummyNames"

text \<open>
  \<^verbatim>\<open>device.address && (device.address.includes('00:00:00') || ...)\<close>: an empty address is
  falsy.
\<close>

definition isGenericAddress :: "BluetoothDevice \<Rightarrow> bool" where
  "isGenericAddress device =
     (address device \<noteq> [] \<and>
      (str_includes (address device) ''00:00:00'' \<or> str_includes (address device) ''FF:FF:FF'' \<or>
       str_includes (address device) ''AA:AA:AA'' \<or> str_includes (address device) ''BB:BB:BB''))"

definition realPairedDevices :: "BluetoothDevice list \<Rightarrow> BluetoothDevice list" where
  "realPairedDevices systemDevices =
     filter (\<lambda>device. bonded device \<and> \<not> isDummyName device \<and> \<not> isGenericAddress device)
       systemDevices"

subsection \<open>The filter as the specification words it\<close>

text \<open>
  Two code units are the same letter when lower-casing makes them equal; a text contains a
  pattern case-insensitively when some contiguous part of the text agrees with the pattern
  letter by letter.
\<close>

definition same_letter :: "char \<Rightarrow> char \<Rightarrow> bool" where
  "same_letter a b = (lower_unit a = lower_unit b)"

definition contains_ci :: "string \<Rightarrow> string \<Rightarrow> bool" where
  "contains_ci text pat = (\<exists>ps u ss. text = ps @ u @ ss \<and> list_all2 same_letter u pat)"

definition generic_names :: "string list" where
  "generic_names = [''Unknown Device'', ''Unknown'', ''Bluetooth Device'', ''BT Device'',
     ''Device'', ''Phone'', ''Mobile'', ''Android'', ''Test Device'', ''Dummy Device'']"

definition generic_addresses :: "string list" where
  "generic_addresses = [''00:00:00'', ''FF:FF:FF'', ''AA:AA:AA'', ''BB:BB:BB'']"

definition name_text :: "BluetoothDevice \<Rightarrow> string" where
  "name_text device = (case name device of None \<Rightarrow> [] | Some n \<Rightarrow> n)"

definition kept_by_spec :: "BluetoothDevice \<Rightarrow> bool" where
  "kept_by_spec device =
     (bonded device \<and>
      list_all (\<lambda>g. \<not> contains_ci (name_text device) g) generic_names \<and>
      list_all (\<lambda>a. \<not> sublist a (address device)) generic_addresses)"

section \<open>Regular-expression helpers\<close>

text \<open>
  The character classes of the regular expressions in the screens, on code units below
  256: \<^verbatim>\<open>\d\<close> is 0 to 9; \<^verbatim>\<open>\w\<close> is a letter, a digit or the underscore; \<^verbatim>\<open>\s\<close> is tab,
  line feed, vertical tab, form feed, carriage return, space and the no-break space.
\<close>

definition is_digit :: "char \<Rightarrow> bool" where
  "is_digit c = (let n = (of_char c :: int) in 48 \<le> n \<and> n \<le> 57)"

definition is_word :: "char \<Rightarrow> bool" where
  "is_word c =
     (let n = (of_char c :: int)
      in (48 \<le> n \<and> n \<le> 57) \<or> (65 \<le> n \<and> n \<le> 90) \<or> (97 \<le> n \<and> n \<le> 122) \<or> n = 95)"

definition is_space :: "char \<Rightarrow> bool" where
  "is_space c = (let n = (of_char c :: int) in (9 \<le> n \<and> n \<le> 13) \<or> n = 32 \<or> n = 160)"

text \<open>
  A quantified character class followed by the rest of the pattern.  The engine is greedy
  and backtracks: it takes as many units of the class as the quantifier allows, runs the
  rest of the pattern (the continuation, which receives the text taken and the text left),
  and on failure gives units back one at a time down to the quantifier's minimum.
\<close>

fun try_lengths :: "nat list \<Rightarrow> (string \<Rightarrow> string \<Rightarrow> 'a option) \<Rightarrow> string \<Rightarrow> 'a option" where
  "try_lengths [] k s = None"
| "try_lengths (n # ns) k s =
     (case k (take n s) (drop n s) of Some r \<Rightarrow> Some r | None \<Rightarrow> try_lengths ns k s)"

definition greedy ::
  "(char \<Rightarrow> bool) \<Rightarrow> nat \<Rightarrow> nat \<Rightarrow> (string \<Rightarrow> string \<Rightarrow> 'a option) \<Rightarrow> string \<Rightarrow> 'a option" where
  "greedy cls lo hi k s =
     try_lengths (rev [lo ..< Suc (min hi (length (takeWhile cls s)))]) k s"

text \<open>\<^verbatim>\<open>\d{10,13}\<close>, \<^verbatim>\<open>\d+\<close> and \<^verbatim>\<open>\s*\<close>.\<close>

definition digits_10_13 :: "(string \<Rightarrow> string \<Rightarrow> 'a option) \<Rightarrow> string \<Rightarrow> 'a option" where
  "digits_10_13 k s = greedy is_digit 10 13 k s"

definition digits_plus :: "(string \<Rightarrow> string \<Rightarrow> 'a option) \<Rightarrow> string \<Rightarrow> 'a option" where
  "digits_plus k s = greedy is_digit 1 (length s) k s"

definition spaces_star :: "(string \<Rightarrow> string \<Rightarrow> 'a option) \<Rightarrow> string \<Rightarrow> 'a option" where
  "spaces_star k s = greedy is_space 0 (length s) k s"

text \<open>A literal character next in the pattern.\<close>

definition lit :: "char \<Rightarrow> (string \<Rightarrow> 'a option) \<Rightarrow> string \<Rightarrow> 'a option" where
  "lit c k s = (case s of [] \<Rightarrow> None | x # xs \<Rightarrow> if x = c then k xs else None)"

text \<open>\<^verbatim>\<open>Number.prototype.toString\<close> and \<^verbatim>\<open>parseInt(_, 10)\<close> on integers (a digit string for \<^verbatim>\<open>parseInt\<close>).\<close>

definition digit_char :: "int \<Rightarrow> char" where
  "digit_char n = char_of (48 + n)"

function toString :: "int \<Rightarrow> string" where
  "toString n =
     (if n < 0 then CHR ''-'' # toString (- n)
      else if n < 10 then [digit_char n]
      else toString (n div 10) @ [digit_char (n mod 10)])"
  by pat_completeness auto
termination
  by (relation "measure (\<lambda>n. if n < 0 then nat (- n) + 1 else nat n)") auto

declare toString.simps [simp del]

definition digit_value :: "char \<Rightarrow> int" where
  "digit_value c = of_char c - 48"

definition parseInt :: "string \<Rightarrow> int" where
  "parseInt s = foldl (\<lambda>acc c. 10 * acc + digit_value c) 0 s"

section \<open>The spreadsheet export (src/src/screens/LogsScreen.tsx, exportToExcel)\<close>

text \<open>\<^verbatim>\<open>/^\s*D:/i.test(item.data)\<close>: with the i flag the letter is D or d.\<close>

definition isDataLine :: "string \<Rightarrow> bool" where
  "isDataLine s =
     (spaces_star (\<lambda>_ r. case r of
                      c # d # _ \<Rightarrow> if (c = CHR ''D'' \<or> c = CHR ''d'') \<and> d = CHR '':'' then Some () else None
                    | _ \<Rightarrow> None) s
      \<noteq> None)"

text \<open>
  \<^verbatim>\<open>item.data.replace(/^\s*D:\s*/, '')\<close>: this expression has no i flag.  The matched
  prefix is removed; a text the expression does not match is returned as it is.
\<close>

definition dataLine :: "string \<Rightarrow> string" where
  "dataLine s =
     (case spaces_star (\<lambda>_. lit CHR ''D'' (lit CHR '':'' (spaces_star (\<lambda>_ rest. Some rest)))) s of
        Some rest \<Rightarrow> rest
      | None \<Rightarrow> s)"

text \<open>
  \<^verbatim>\<open>dataLine.match(/(\d{10,13}),(\d+),(\d+)#/)\<close>: the expression is tried at every start
  position from the left; the first position where it matches gives the three groups.
\<close>

definition ppm_at :: "string \<Rightarrow> (string \<times> string \<times> string) option" where
  "ppm_at s =
     digits_10_13 (\<lambda>g1. lit CHR '','' (digits_plus (\<lambda>g2. lit CHR '','' (digits_plus (\<lambda>g3.
       lit CHR ''#'' (\<lambda>_. Some (g1, g2, g3))))))) s"

fun ppmMatch :: "string \<Rightarrow> (string \<times> string \<times> string) option" where
  "ppmMatch [] = ppm_at []"
| "ppmMatch (c # cs) = (case ppm_at (c # cs) of Some r \<Rightarrow> Some r | None \<Rightarrow> ppmMatch cs)"

text \<open>
  One spreadsheet row.  The two locale conversions \<^verbatim>\<open>toLocaleDateString('en-US', ...)\<close> and
  \<^verbatim>\<open>toLocaleTimeString('en-US', ...)\<close> depend on the device's time zone and are
  parameters; both receive the argument of \<^verbatim>\<open>new Date\<close>, the epoch times 1000.
\<close>

definition header_row :: "string list" where
  "header_row = [''Serial Number'', ''Date'', ''Time'', ''Outlet PPM'', ''Inlet PPM'']"

definition make_row :: "(int \<Rightarrow> string) \<Rightarrow> (int \<Rightarrow> string) \<Rightarrow> int \<Rightarrow> LogEntry \<Rightarrow> string list" where
  "make_row toLocaleDateString toLocaleTimeString serialNumber item =
     (case ppmMatch (dataLine (data item)) of
        Some (g1, g2, g3) \<Rightarrow>
          [toString serialNumber,
           toLocaleDateString (parseInt g1 * 1000),
           toLocaleTimeString (parseInt g1 * 1000),
           g2, g3]
      | None \<Rightarrow> [toString serialNumber, [], [], [], []])"

text \<open>The \<^verbatim>\<open>forEach\<close> loop with its counter \<^verbatim>\<open>serialNumber++\<close>.\<close>

fun push_rows ::
  "(int \<Rightarrow> string) \<Rightarrow> (int \<Rightarrow> string) \<Rightarrow> int \<Rightarrow> LogEntry list \<Rightarrow> string list list" where
  "push_rows dfmt tfmt serialNumber [] = []"
| "push_rows dfmt tfmt serialNumber (item # items) =
     make_row dfmt tfmt serialNumber item # push_rows dfmt tfmt (serialNumber + 1) items"

definition filtered :: "LogEntry list \<Rightarrow> LogEntry list" where
  "filtered logs = filter (\<lambda>item. isDataLine (data item)) logs"

definition excelData :: "(int \<Rightarrow> string) \<Rightarrow> (int \<Rightarrow> string) \<Rightarrow> LogEntry list \<Rightarrow> string list list" where
  "excelData dfmt tfmt logs = header_row # push_rows dfmt tfmt 1 (filtered logs)"

subsection \<open>The two patterns as the specification words them\<close>

text \<open>
  A text matches \<^verbatim>\<open>^\s*D:\<close> case-insensitively when it is some white space, then the
  letter D in either case, then a colon, then anything.
\<close>

definition matches_D_prefix :: "string \<Rightarrow> bool" where
  "matches_D_prefix s =
     (\<exists>ws c rest. s = ws @ c # CHR '':'' # rest \<and> list_all is_space ws \<and>
        (c = CHR ''D'' \<or> c = CHR ''d''))"

text \<open>
  A text holds the fields \<open>g1\<close>, \<open>g2\<close>, \<open>g3\<close> at its start when it reads: 10 to 13 digits,
  a comma, one or more digits, a comma, one or more digits, a hash sign.  It contains the
  pattern when some part of it does.
\<close>

definition fields_here :: "string \<Rightarrow> string \<Rightarrow> string \<Rightarrow> string \<Rightarrow> bool" where
  "fields_here s g1 g2 g3 =
     (\<exists>post. s = g1 @ CHR '','' # g2 @ CHR '','' # g3 @ CHR ''#'' # post \<and>
        list_all is_digit g1 \<and> 10 \<le> length g1 \<and> length g1 \<le> 13 \<and>
        list_all is_digit g2 \<and> g2 \<noteq> [] \<and> list_all is_digit g3 \<and> g3 \<noteq> [])"

definition contains_fields :: "string \<Rightarrow> bool" where
  "contains_fields s = (\<exists>pre rest g1 g2 g3. s = pre @ rest \<and> fields_here rest g1 g2 g3)"

text \<open>
  The fields a text holds first: they stand at the leftmost position where the pattern
  occurs.  This is the occurrence \<^verbatim>\<open>String.prototype.match\<close> reports.
\<close>

definition first_fields :: "string \<Rightarrow> string \<Rightarrow> string \<Rightarrow> string \<Rightarrow> bool" where
  "first_fields s g1 g2 g3 =
     (\<exists>pre rest. s = pre @ rest \<and> fields_here rest g1 g2 g3 \<and>
        (\<forall>pre' rest'. s = pre' @ rest' \<and> length pre' < length pre
           \<longrightarrow> \<not> (\<exists>a b c. fields_here rest' a b c)))"

section \<open>The document-dialog module (android/.../SafFileModule.kt)\<close>

text \<open>
  The module keeps three nullable fields.  A promise of the bridge is known by a number;
  the model records, in order, how promises are settled, which dialogs are started
  (the title put into the intent and the request code) and which bytes are written to
  which URI.
\<close>

datatype settlement = Resolve string | Reject string string

record SafFileModule =
  pendingPromise :: "nat option"
  pendingFileName :: "string option"
  pendingBase64 :: "string option"

record saf_world =
  saf :: SafFileModule
  settlements :: "(nat \<times> settlement) list"
  started :: "(string \<times> int) list"
  written :: "(string \<times> string) list"

definition settle :: "nat \<Rightarrow> settlement \<Rightarrow> saf_world \<Rightarrow> saf_world" where
  "settle promise s w = w\<lparr>settlements := settlements w @ [(promise, s)]\<rparr>"

text \<open>
  \<^verbatim>\<open>saveFileWithDialog(fileName, base64, promise)\<close>; the first argument says whether
  \<^verbatim>\<open>currentActivity\<close> is non-null.
\<close>

definition saveFileWithDialog :: "bool \<Rightarrow> string \<Rightarrow> string \<Rightarrow> nat \<Rightarrow> saf_world \<Rightarrow> saf_world" where
  "saveFileWithDialog hasActivity fname base64 promise w =
     (if \<not> hasActivity then settle promise (Reject ''NO_ACTIVITY'' ''No current activity'') w
      else w\<lparr>saf := \<lparr>pendingPromise = Some promise, pendingFileName = Some fname,
                       pendingBase64 = Some base64\<rparr>,
             started := started w @ [(fname, 2025)]\<rparr>)"

text \<open>
  What the write path meets: \<^verbatim>\<open>contentResolver.openOutputStream(uri)\<close> throws, returns null
  or returns a stream; \<^verbatim>\<open>Base64.decode\<close> throws or returns the bytes; writing to and closing
  the stream may throw.
\<close>

datatype open_outcome = OpenThrows string | OpenNull | Opened

record saf_io =
  openOutputStream :: "string \<Rightarrow> open_outcome"
  base64_decode :: "string \<Rightarrow> string + string"
  write_throws :: "string option"

definition RESULT_OK :: int where
  "RESULT_OK = - 1"

text \<open>
  The body of the \<^verbatim>\<open>try\<close> block: open, decode, \<^verbatim>\<open>out?.write(bytes)\<close>, \<^verbatim>\<open>out?.close()\<close>,
  resolve; any exception rejects with WRITE_ERROR and its message.
\<close>

definition write_and_settle :: "saf_io \<Rightarrow> nat \<Rightarrow> string \<Rightarrow> string \<Rightarrow> saf_world \<Rightarrow> saf_world" where
  "write_and_settle io promise uri base64 w =
     (case openOutputStream io uri of
        OpenThrows msg \<Rightarrow> settle promise (Reject ''WRITE_ERROR'' msg) w
      | out \<Rightarrow>
          (case base64_decode io base64 of
             Inl msg \<Rightarrow> settle promise (Reject ''WRITE_ERROR'' msg) w
           | Inr bytes \<Rightarrow>
               (if out = OpenNull then settle promise (Resolve uri) w
                else (case write_throws io of
                        Some msg \<Rightarrow> settle promise (Reject ''WRITE_ERROR'' msg) w
                      | None \<Rightarrow> settle promise (Resolve uri)
                                 (w\<lparr>written := written w @ [(uri, bytes)]\<rparr>)))))"

text \<open>
  \<^verbatim>\<open>onActivityResult(activity, requestCode, resultCode, data)\<close>.  The intent \<^verbatim>\<open>data\<close> may
  be null (\<open>None\<close>), and its URI \<^verbatim>\<open>data.data\<close> may be null (\<open>Some None\<close>).
\<close>

definition onActivityResult ::
  "saf_io \<Rightarrow> int \<Rightarrow> int \<Rightarrow> string option option \<Rightarrow> saf_world \<Rightarrow> saf_world" where
  "onActivityResult io requestCode resultCode intent w =
     (case pendingPromise (saf w) of
        None \<Rightarrow> w
      | Some promise \<Rightarrow>
          if requestCode \<noteq> 2025 then w
          else
            let w1 = w\<lparr>saf := (saf w)\<lparr>pendingPromise := None\<rparr>\<rparr>;
                w2 = (case (resultCode = RESULT_OK, intent) of
                        (True, Some uri) \<Rightarrow>
                          (case (uri, pendingBase64 (saf w1)) of
                             (Some u, Some base64) \<Rightarrow> write_and_settle io promise u base64 w1
                           | _ \<Rightarrow> settle promise (Reject ''NO_URI'' ''No URI returned'') w1)
                      | _ \<Rightarrow> settle promise (Reject ''CANCELLED'' ''User cancelled'') w1)
            in w2\<lparr>saf := (saf w2)\<lparr>pendingFileName := None, pendingBase64 := None\<rparr>\<rparr>)"

definition saf_initial :: saf_world where
  "saf_initial =
     \<lparr>saf = \<lparr>pendingPromise = None, pendingFileName = None, pendingBase64 = None\<rparr>,
      settlements = [], started = [], written = []\<rparr>"

text \<open>Streams to run the module on: one that takes every write, one where the resolver returns no stream.\<close>

definition working_io :: saf_io where
  "working_io = \<lparr>openOutputStream = (\<lambda>uri. Opened), base64_decode = Inr, write_throws = None\<rparr>"

definition null_stream_io :: saf_io where
  "null_stream_io = \<lparr>openOutputStream = (\<lambda>uri. OpenNull), base64_decode = Inr, write_throws = None\<rparr>"

section \<open>Awaited platform calls\<close>

text \<open>
  An awaited promise either resolves with a value or rejects; a rejection carries the
  text of its error message.
\<close>

datatype 'a settled = Resolved 'a | Rejected string

definition is_resolved :: "'a settled \<Rightarrow> bool" where
  "is_resolved r = (case r of Resolved _ \<Rightarrow> True | Rejected _ \<Rightarrow> False)"

section \<open>The export action (src/src/screens/LogsScreen.tsx, exportToExcel)\<close>

text \<open>
  What the action does to the outside world, in order: alerts and toasts shown, the
  workbook handed to \<^verbatim>\<open>XLSX.write\<close> (a list of named sheets), and the save calls made.
\<close>

type_synonym workbook = "(string \<times> string list list) list"

datatype export_effect =
    Alert string string
  | Toast string
  | XlsxWrite workbook
  | SafSaveFileWithDialog string string
  | RnfsWriteFile string string
  | ShareOpen string

text \<open>
  What the action reads from the outside world: the platform, the clock
  (\<^verbatim>\<open>new Date().toISOString()\<close>), the documents directory, the serialisation done by the
  spreadsheet library (it returns the Base64 text or throws an error with a message), and
  the locale conversions.  On Android the save goes through the document-dialog module:
  whether there is a current activity, the number of the promise the bridge passes, the
  result the dialog reports (none when the dialog never returns; otherwise the result
  code and the intent) and the streams the write meets.  Elsewhere the two awaited
  library calls settle as given.
\<close>

record export_env =
  os_android :: bool
  now_iso :: string
  documentDirectoryPath :: string
  xlsx_write :: "workbook \<Rightarrow> string + string"
  toLocaleDateString :: "int \<Rightarrow> string"
  toLocaleTimeString :: "int \<Rightarrow> string"
  currentActivity :: bool
  promise_id :: nat
  activity_result :: "(int \<times> string option option) option"
  streams :: saf_io
  rnfs_writeFile :: "string \<Rightarrow> string \<Rightarrow> unit settled"
  share_open :: "string \<Rightarrow> unit settled"



text \<open>
  \<^verbatim>\<open>`Failed to generate Excel file: ${(error as any)?.message || error}`\<close>: the message of
  the error, and for an error with an empty message the error itself, which prints as
  its name.
\<close>

definition error_text :: "string \<Rightarrow> string" where
  "error_text msg = (if msg = [] then ''Error'' else msg)"

definition error_alert :: "string \<Rightarrow> export_effect" where
  "error_alert msg = Alert ''Error'' (''Failed to generate Excel file: '' @ error_text msg)"




definition save_requested :: "export_effect \<Rightarrow> (string \<times> string) option" where
  "save_requested e =
     (case e of
        SafSaveFileWithDialog target buf \<Rightarrow> Some (target, buf)
      | RnfsWriteFile path buf \<Rightarrow> Some (path, buf)
      | _ \<Rightarrow> None)"





section \<open>Timestamps in the log view (src/src/screens/LogsScreen.tsx)\<close>

text \<open>
  \<^verbatim>\<open>isEpoch\<close>: a number above 2,000,000,000 is read as milliseconds and divided by 1000
  (\<^verbatim>\<open>Math.floor\<close>); the seconds must lie between 946684800 (1 January 2000) and
  4102444800 (1 January 2100).
\<close>

definition isEpoch :: "int \<Rightarrow> bool" where
  "isEpoch n =
     (let sec = (if n > 2000000000 then n div 1000 else n)
      in sec \<ge> 946684800 \<and> sec \<le> 4102444800)"

text \<open>
  The UTC getters of \<^verbatim>\<open>Date\<close> for a time value in milliseconds: day of the week (0 is
  Sunday; 1 January 1970 was a Thursday), and the civil date of the day number, counted in
  400-year eras that start on 1 March.
\<close>

definition getUTCDay :: "int \<Rightarrow> int" where
  "getUTCDay ms = (ms div 86400000 + 4) mod 7"

definition getUTCHours :: "int \<Rightarrow> int" where
  "getUTCHours ms = (ms div 3600000) mod 24"

definition getUTCMinutes :: "int \<Rightarrow> int" where
  "getUTCMinutes ms = (ms div 60000) mod 60"

definition getUTCSeconds :: "int \<Rightarrow> int" where
  "getUTCSeconds ms = (ms div 1000) mod 60"

definition civil :: "int \<Rightarrow> int \<times> int \<times> int" where
  "civil ms =
     (let z = ms div 86400000 + 719468;
          era = z div 146097;
          doe = z mod 146097;
          yoe = (doe - doe div 1460 + doe div 36524 - doe div 146096) div 365;
          doy = doe - (365 * yoe + yoe div 4 - yoe div 100);
          mp = (5 * doy + 2) div 153;
          d = doy - (153 * mp + 2) div 5 + 1;
          m = (if mp < 10 then mp + 3 else mp - 9);
          y = yoe + era * 400 + (if m \<le> 2 then 1 else 0)
      in (y, m - 1, d))"

definition getUTCFullYear :: "int \<Rightarrow> int" where
  "getUTCFullYear ms = fst (civil ms)"

definition getUTCMonth :: "int \<Rightarrow> int" where
  "getUTCMonth ms = fst (snd (civil ms))"

definition getUTCDate :: "int \<Rightarrow> int" where
  "getUTCDate ms = snd (snd (civil ms))"

definition pad :: "int \<Rightarrow> string" where
  "pad x = (if x < 10 then ''0'' @ toString x else toString x)"

definition formatEpoch :: "int \<Rightarrow> string" where
  "formatEpoch n =
     (let ms = (if n > 2000000000 then n else n * 1000);
          days = [''Sun'', ''Mon'', ''Tue'', ''Wed'', ''Thu'', ''Fri'', ''Sat''];
          months = [''Jan'', ''Feb'', ''Mar'', ''Apr'', ''May'', ''Jun'',
                    ''Jul'', ''Aug'', ''Sep'', ''Oct'', ''Nov'', ''Dec'']
      in days ! nat (getUTCDay ms) @ '' '' @ months ! nat (getUTCMonth ms) @ '' '' @
         pad (getUTCDate ms) @ '' '' @ pad (getUTCHours ms) @ '':'' @ pad (getUTCMinutes ms) @
         '':'' @ pad (getUTCSeconds ms) @ '' '' @ toString (getUTCFullYear ms))"

text \<open>
  The callback of the replacement: \<^verbatim>\<open>Number(m)\<close> of 10 to 13 digits is finite, so only
  \<^verbatim>\<open>isEpoch\<close> decides.
\<close>

definition replace_token :: "string \<Rightarrow> string" where
  "replace_token m = (let num = parseInt m in if \<not> isEpoch num then m else formatEpoch num)"

text \<open>
  \<^verbatim>\<open>\b\<close> holds between two neighbouring positions when exactly one of them is a word
  character; the start and the end of the line count as non-word.
\<close>

definition word_boundary :: "char option \<Rightarrow> char option \<Rightarrow> bool" where
  "word_boundary before after =
     ((case before of None \<Rightarrow> False | Some c \<Rightarrow> is_word c) \<noteq>
      (case after of None \<Rightarrow> False | Some c \<Rightarrow> is_word c))"

definition first_unit :: "string \<Rightarrow> char option" where
  "first_unit s = (case s of [] \<Rightarrow> None | c # _ \<Rightarrow> Some c)"

text \<open>
  \<^verbatim>\<open>/\b\d{10,13}\b/\<close> tried at one position: the unit before the position, then the text
  from the position on.  The result is the token and the text after it.
\<close>

definition token_at :: "char option \<Rightarrow> string \<Rightarrow> (string \<times> string) option" where
  "token_at before s =
     (if word_boundary before (first_unit s)
      then digits_10_13 (\<lambda>g rest. if g \<noteq> [] \<and> word_boundary (Some (last g)) (first_unit rest)
                                    then Some (g, rest) else None) s
      else None)"

text \<open>
  \<^verbatim>\<open>line.replace(/\b\d{10,13}\b/g, ...)\<close>: the scan goes from left to right; after a match
  it continues behind the token, otherwise it copies one unit and moves on.
\<close>

function replace_all :: "char option \<Rightarrow> string \<Rightarrow> string" where
  "replace_all before [] = []"
| "replace_all before (c # cs) =
     (case token_at before (c # cs) of
        Some (g, rest) \<Rightarrow> replace_token g @ replace_all (Some (last g)) rest
      | None \<Rightarrow> c # replace_all (Some c) cs)"
  by pat_completeness auto
termination
proof (relation "measure (\<lambda>(before, s). length s)")
  show "wf (measure (\<lambda>(before, s). length s))"
    by simp
next
  fix before :: "char option" and c cs m g rest
  assume "token_at before (c # cs) = Some m" and "(g, rest) = m"
  then have token: "token_at before (c # cs) = Some (g, rest)"
    by simp
  have tried: "\<exists>n \<in> set ns. k (take n s) (drop n s) = Some r"
    if "try_lengths ns k s = Some r"
    for ns and k :: "string \<Rightarrow> string \<Rightarrow> (string \<times> string) option" and s r
    using that by (induction ns) (auto split: option.splits)
  let ?k = "\<lambda>g rest. if g \<noteq> [] \<and> word_boundary (Some (last g)) (first_unit rest)
                         then Some (g, rest) else None"
  let ?ns = "rev [10 ..< Suc (min 13 (length (takeWhile is_digit (c # cs))))]"
  from token have "try_lengths ?ns ?k (c # cs) = Some (g, rest)"
    by (simp only: token_at_def digits_10_13_def greedy_def option.simps simp_thms
        split: if_splits)
  from tried [OF this] obtain n where n: "n \<in> set ?ns"
    and k: "?k (take n (c # cs)) (drop n (c # cs)) = Some (g, rest)"
    by blast
  from n have "10 \<le> n"
    by (simp only: set_rev set_upt atLeastLessThan_iff)
  moreover from k have "rest = drop n (c # cs)"
    by (auto split: if_splits)
  ultimately have "length rest < length (c # cs)"
    by simp
  then show "((Some (last g), rest), (before, c # cs)) \<in> measure (\<lambda>(before, s). length s)"
    by simp
next
  fix before :: "char option" and c cs
  show "((Some c, cs), (before, c # cs)) \<in> measure (\<lambda>(before, s). length s)"
    by simp
qed

declare replace_all.simps [simp del]

definition convertLineTimestamps :: "string \<Rightarrow> string" where
  "convertLineTimestamps line = replace_all None line"

text \<open>
  What the terminal of the log view shows:
  \<^verbatim>\<open>logData.map((item, index) => <Text key={index} ...>{item.data}</Text>)\<close>, one text
  element per entry, given here by its key and its text.  No code of the screen calls
  \<^verbatim>\<open>convertLineTimestamps\<close>.
\<close>

definition terminal_lines :: "LogEntry list \<Rightarrow> (nat \<times> string) list" where
  "terminal_lines entries = map (\<lambda>(index, item). (index, data item)) (enumerate 0 entries)"

section \<open>The main screen (src/src/screens/MainScreen.tsx)\<close>

text \<open>
  The React state of the screen that the functions below read or set, and the
  module-level \<^verbatim>\<open>dataSubscription\<close> (the device whose data events are subscribed to).
\<close>

datatype permission_result = Granted | Denied | NeverAskAgain

record DeviceInfo =
  manufacturer :: string
  model :: string
  version :: int
  apiLevel :: "string + int"

record MainScreen =
  isBluetoothEnabled :: bool
  isScanning :: bool
  pairedDevices :: "BluetoothDevice list"
  unpairedDevices :: "BluetoothDevice list"
  connectedDevice :: "BluetoothDevice option"
  status :: string
  deviceInfo :: "DeviceInfo option"
  isAppReady :: bool
  permissionStatus :: "(string \<times> permission_result) list"

text \<open>
  The calls into the platform, the storage and the user interface, as a trace;
  \<open>Sleep\<close> is \<^verbatim>\<open>await new Promise(res => setTimeout(res, ms))\<close>.
\<close>

datatype platform_call =
    IsBluetoothEnabled
  | RequestMultiple "string list"
  | GetBondedDevices
  | GetItem string
  | SetItem string string
  | GetJSON string
  | SetJSON string "BluetoothDevice list"
  | PairDevice string
  | Connect BluetoothDevice
  | CancelDiscovery
  | StartDiscovery
  | Sleep nat
  | OnDataReceived BluetoothDevice
  | SubscriptionRemove
  | ToastShow string
  | AlertShow string string

text \<open>
  Besides the trace of calls, the world records for every awaited call how long the
  \<^verbatim>\<open>await\<close> took, in milliseconds, and every text given to \<^verbatim>\<open>setStatus\<close>, in order.
\<close>

record world =
  screen :: MainScreen
  dataSubscription :: "BluetoothDevice option"
  calls :: "platform_call list"
  waits :: "(platform_call \<times> nat) list"
  shown :: "string list"

text \<open>
  The platform the screen runs on.  Every awaited call settles; how it settles and how
  long it takes (\<open>latency\<close>, in milliseconds) may depend on when it is made, so each
  answer is indexed by the number of calls made before it.
\<close>

record platform =
  OS_android :: bool
  Version :: int
  Brand :: "string option"
  Model :: "string option"
  constants_Version :: "int option"
  isBluetoothEnabled_result :: "nat \<Rightarrow> bool settled"
  requestMultiple_result :: "nat \<Rightarrow> string list \<Rightarrow> (string \<times> permission_result) list settled"
  getBondedDevices_result :: "nat \<Rightarrow> BluetoothDevice list settled"
  getItem_result :: "nat \<Rightarrow> string \<Rightarrow> string option settled"
  setItem_result :: "nat \<Rightarrow> string \<Rightarrow> string \<Rightarrow> unit settled"
  getJSON_result :: "nat \<Rightarrow> string \<Rightarrow> BluetoothDevice list option settled"
  pairDevice_result :: "nat \<Rightarrow> string \<Rightarrow> bool settled"
  connect_result :: "nat \<Rightarrow> BluetoothDevice \<Rightarrow> bool settled"
  cancelDiscovery_result :: "nat \<Rightarrow> bool settled"
  startDiscovery_result :: "nat \<Rightarrow> BluetoothDevice list option settled"
  latency :: "nat \<Rightarrow> nat"

definition tick :: "world \<Rightarrow> nat" where
  "tick w = length (calls w)"

definition call :: "platform_call \<Rightarrow> world \<Rightarrow> world" where
  "call c w = w\<lparr>calls := calls w @ [c]\<rparr>"

definition setStatus :: "string \<Rightarrow> world \<Rightarrow> world" where
  "setStatus s w = w\<lparr>screen := (screen w)\<lparr>status := s\<rparr>, shown := shown w @ [s]\<rparr>"

text \<open>
  \<^verbatim>\<open>await call\<close> waits until the call settles.
  \<^verbatim>\<open>await Promise.race([call, new Promise((_, reject) => setTimeout(() => reject(new Error(message)), delay))])\<close>
  waits until the call settles or the timer fires, whichever is first; the timer wins
  against a call that takes the whole delay or longer.
\<close>

definition await :: "platform \<Rightarrow> platform_call \<Rightarrow> world \<Rightarrow> world" where
  "await pf c w = (call c w)\<lparr>waits := waits w @ [(c, latency pf (tick w))]\<rparr>"

definition await_raced :: "platform \<Rightarrow> nat \<Rightarrow> platform_call \<Rightarrow> world \<Rightarrow> world" where
  "await_raced pf delay c w = (call c w)\<lparr>waits := waits w @ [(c, min delay (latency pf (tick w)))]\<rparr>"

definition race :: "platform \<Rightarrow> world \<Rightarrow> nat \<Rightarrow> string \<Rightarrow> 'a settled \<Rightarrow> 'a settled" where
  "race pf w delay timeout_message r =
     (if delay \<le> latency pf (tick w) then Rejected timeout_message else r)"

text \<open>\<^verbatim>\<open>x || 'Unknown'\<close> on a string that may be missing, and \<^verbatim>\<open>device.name || device.address\<close>.\<close>

definition or_unknown :: "string option \<Rightarrow> string" where
  "or_unknown v = (case v of None \<Rightarrow> ''Unknown'' | Some s \<Rightarrow> if s = [] then ''Unknown'' else s)"

definition label :: "BluetoothDevice \<Rightarrow> string" where
  "label device = (case name device of None \<Rightarrow> address device
                   | Some n \<Rightarrow> if n = [] then address device else n)"

definition getDeviceInfo :: "platform \<Rightarrow> world \<Rightarrow> world" where
  "getDeviceInfo pf w =
     w\<lparr>screen := (screen w)\<lparr>deviceInfo := Some
        \<lparr>manufacturer = or_unknown (Brand pf), model = or_unknown (Model pf),
         version = Version pf,
         apiLevel = (case constants_Version pf of
                       None \<Rightarrow> Inl ''Unknown''
                     | Some v \<Rightarrow> if v = 0 then Inl ''Unknown'' else Inr v)\<rparr>\<rparr>\<rparr>"

definition checkBluetoothEnabled :: "platform \<Rightarrow> world \<Rightarrow> world" where
  "checkBluetoothEnabled pf w =
     (case isBluetoothEnabled_result pf (tick w) of
        Resolved enabled \<Rightarrow>
          let w1 = await pf IsBluetoothEnabled w;
              w2 = w1\<lparr>screen := (screen w1)\<lparr>isBluetoothEnabled := enabled\<rparr>\<rparr>;
              w3 = setStatus (if enabled then ''Bluetooth is enabled.''
                    else ''Bluetooth is disabled. Please enable Bluetooth in settings.'') w2
          in if \<not> enabled then call (ToastShow ''Please enable Bluetooth'') w3 else w3
      | Rejected _ \<Rightarrow> setStatus ''Error checking Bluetooth status.'' (await pf IsBluetoothEnabled w))"

text \<open>
  \<^verbatim>\<open>showPermissionGuidance\<close> reads \<^verbatim>\<open>deviceInfo\<close> as the render that created the running
  closure saw it (\<open>rendered\<close>), not as \<^verbatim>\<open>setDeviceInfo\<close> has set it since.
\<close>

definition showPermissionGuidance :: "MainScreen \<Rightarrow> world \<Rightarrow> world" where
  "showPermissionGuidance rendered w =
     (let m = (case deviceInfo rendered of None \<Rightarrow> [] | Some i \<Rightarrow> toLowerCase (manufacturer i));
          guidance =
            (if str_includes m ''xiaomi'' \<or> str_includes m ''mi''
               then ''Xiaomi: enable Autostart and disable Battery Saver for this app.''
             else if str_includes m ''huawei''
               then ''Huawei: enable Auto-launch and disable Battery optimization.''
             else if str_includes m ''oppo'' \<or> str_includes m ''oneplus''
               then ''OPPO/OnePlus: enable Auto-start and disable Battery optimization.''
             else if str_includes m ''vivo''
               then ''Vivo: enable Auto-start and disable Battery saver.''
             else ''Please grant all permissions in Settings > Apps > Bluetooth Scanner > Permissions'')
      in call (AlertShow ''Permissions Required'' guidance) w)"

definition requestPermissions :: "platform \<Rightarrow> MainScreen \<Rightarrow> world \<Rightarrow> bool \<times> world" where
  "requestPermissions pf rendered w =
     (if \<not> OS_android pf then (True, w)
      else
        let permissions =
              [''android.permission.ACCESS_FINE_LOCATION'',
               ''android.permission.ACCESS_COARSE_LOCATION''] @
              (if Version pf \<ge> 31
               then [''android.permission.BLUETOOTH_SCAN'', ''android.permission.BLUETOOTH_CONNECT'']
               else [])
        in (case requestMultiple_result pf (tick w) permissions of
              Resolved granted \<Rightarrow>
                let w1 = await pf (RequestMultiple permissions) w;
                    w2 = w1\<lparr>screen := (screen w1)\<lparr>permissionStatus := granted\<rparr>\<rparr>;
                    allGranted = list_all (\<lambda>kv. snd kv = Granted) granted
                in (allGranted, if \<not> allGranted then showPermissionGuidance rendered w2 else w2)
            | Rejected _ \<Rightarrow>
                (False, setStatus ''Permission error occurred.''
                          (await pf (RequestMultiple permissions) w))))"

definition loadPairedDevices :: "platform \<Rightarrow> world \<Rightarrow> BluetoothDevice list \<times> world" where
  "loadPairedDevices pf w =
     (case getJSON_result pf (tick w) ''pairedDevices'' of
        Resolved (Some devices) \<Rightarrow> (devices, await pf (GetJSON ''pairedDevices'') w)
      | _ \<Rightarrow> ([], await pf (GetJSON ''pairedDevices'') w))"

text \<open>\<^verbatim>\<open>savePairedDevices\<close> swallows a rejection of \<^verbatim>\<open>setJSON\<close>.\<close>

definition savePairedDevices :: "platform \<Rightarrow> BluetoothDevice list \<Rightarrow> world \<Rightarrow> world" where
  "savePairedDevices pf devices w = await pf (SetJSON ''pairedDevices'' devices) w"

definition fetchPairedDevices :: "platform \<Rightarrow> MainScreen \<Rightarrow> world \<Rightarrow> world" where
  "fetchPairedDevices pf rendered w =
     (case requestPermissions pf rendered w of
        (False, w1) \<Rightarrow> setStatus ''Bluetooth permissions are required to fetch paired devices.'' w1
      | (True, w1) \<Rightarrow>
          (case loadPairedDevices pf w1 of
             (savedDevices, w2) \<Rightarrow>
               (case race pf w2 10000 ''Timeout getting bonded devices''
                       (getBondedDevices_result pf (tick w2)) of
                  Rejected _ \<Rightarrow>
                    setStatus ''Error loading paired devices.''
                      (await_raced pf 10000 GetBondedDevices w2)
                | Resolved systemDevices \<Rightarrow>
                    let w3 = await_raced pf 10000 GetBondedDevices w2;
                        real = realPairedDevices systemDevices;
                        w4 = w3\<lparr>screen := (screen w3)\<lparr>pairedDevices := real\<rparr>\<rparr>;
                        w5 = savePairedDevices pf real w4
                    in setStatus (''Found '' @ toString (int (length real)) @ '' paired devices.'') w5)))"

text \<open>
  \<^verbatim>\<open>scanForDevices\<close>.  \<open>discover\<close> is the end of its \<^verbatim>\<open>try\<close> block, from
  \<^verbatim>\<open>setStatus('Scanning...')\<close> on: the discovery raced against its timer and the devices
  kept, those matching no paired device by address or by (non-empty) name;
  \<^verbatim>\<open>startDiscovery\<close> may resolve with something that is no array (\<open>None\<close>).  \<open>scan_attempt\<close>
  is the whole \<^verbatim>\<open>try\<close> block with its \<^verbatim>\<open>catch\<close>; the \<^verbatim>\<open>finally\<close> block follows it in
  \<open>scanForDevices\<close>.  The state read before the first \<^verbatim>\<open>await\<close>, and \<^verbatim>\<open>pairedDevices\<close>, are
  those of the render.
\<close>

definition setIsScanning :: "bool \<Rightarrow> world \<Rightarrow> world" where
  "setIsScanning b w = w\<lparr>screen := (screen w)\<lparr>isScanning := b\<rparr>\<rparr>"

definition setUnpairedDevices :: "BluetoothDevice list \<Rightarrow> world \<Rightarrow> world" where
  "setUnpairedDevices ds w = w\<lparr>screen := (screen w)\<lparr>unpairedDevices := ds\<rparr>\<rparr>"


definition scan_error :: "string \<Rightarrow> world \<Rightarrow> world" where
  "scan_error msg w = setStatus (''Scan error: '' @ msg) w"




text \<open>
  The pairing block of \<^verbatim>\<open>connectToDevice\<close>, entered for a device that is not bonded.  The
  boolean says whether \<^verbatim>\<open>connectToDevice\<close> goes on to connect (false: it has returned).
  \<^verbatim>\<open>pairedDevices\<close> is read as rendered.
\<close>

definition pair_first :: "platform \<Rightarrow> MainScreen \<Rightarrow> BluetoothDevice \<Rightarrow> world \<Rightarrow> bool \<times> world" where
  "pair_first pf rendered device w =
     (let w1 = setStatus (''Pairing with '' @ label device @ ''...'') w
      in (case race pf w1 15000 ''Pairing timeout''
                (pairDevice_result pf (tick w1) (address device)) of
            Rejected msg \<Rightarrow>
              (False, setStatus (''Pairing failed: '' @ msg)
                        (await_raced pf 15000 (PairDevice (address device)) w1))
          | Resolved paired \<Rightarrow>
              let w2 = await_raced pf 15000 (PairDevice (address device)) w1
              in if \<not> paired
                 then (False, setStatus
                    ''Pairing failed. Please pair the device manually in Bluetooth settings.'' w2)
                 else
                   let w3 = setStatus (''Successfully paired with '' @ label device @
                              ''. Connecting now...'') w2;
                       w4 = fetchPairedDevices pf rendered w3
                   in (True, savePairedDevices pf (pairedDevices rendered @ [device]) w4)))"

definition connection_failed :: "string \<Rightarrow> world \<Rightarrow> world" where
  "connection_failed msg w =
     call (ToastShow ''Connection failed. Please try again.'')
       (setStatus (''Connection error: '' @ msg) w)"

text \<open>
  The rest of \<^verbatim>\<open>connectToDevice\<close>, from \<^verbatim>\<open>device.connect()\<close> on: the connection raced against
  its timer, and on success the stored address and the data subscription.
\<close>

definition connect_and_subscribe :: "platform \<Rightarrow> BluetoothDevice \<Rightarrow> world \<Rightarrow> world" where
  "connect_and_subscribe pf device w =
     (case race pf w 20000 ''Connection timeout'' (connect_result pf (tick w) device) of
        Rejected msg \<Rightarrow> connection_failed msg (await_raced pf 20000 (Connect device) w)
      | Resolved connected \<Rightarrow>
          let w1 = await_raced pf 20000 (Connect device) w
          in if connected then
               let w2 = w1\<lparr>screen := (screen w1)\<lparr>connectedDevice := Some device\<rparr>\<rparr>;
                   w3 = setStatus (''Connected to '' @ label device @ ''!'') w2
               in (case setItem_result pf (tick w3) ''lastConnectedDevice'' (address device) of
                     Rejected msg \<Rightarrow>
                       connection_failed msg
                         (await pf (SetItem ''lastConnectedDevice'' (address device)) w3)
                   | Resolved _ \<Rightarrow>
                       let w4 = await pf (SetItem ''lastConnectedDevice'' (address device)) w3;
                           w5 = (if dataSubscription w4 \<noteq> None
                                 then (call SubscriptionRemove w4)\<lparr>dataSubscription := None\<rparr>
                                 else w4)
                       in (call (OnDataReceived device) w5)\<lparr>dataSubscription := Some device\<rparr>)
             else call (ToastShow ''Connection failed. Please try again.'')
                    (setStatus (''Failed to connect to '' @ label device) w1))"

definition connectToDevice :: "platform \<Rightarrow> MainScreen \<Rightarrow> BluetoothDevice \<Rightarrow> world \<Rightarrow> world" where
  "connectToDevice pf rendered device w =
     (case requestPermissions pf rendered (setStatus ''Connecting...'' w) of
        (False, w1) \<Rightarrow> setStatus ''Bluetooth permissions are required to connect.'' w1
      | (True, w1) \<Rightarrow>
          if \<not> bonded device then
            (case pair_first pf rendered device w1 of
               (False, w2) \<Rightarrow> w2
             | (True, w2) \<Rightarrow> connect_and_subscribe pf device w2)
          else connect_and_subscribe pf device w1)"

definition app_ready :: "world \<Rightarrow> world" where
  \<open>app_ready w =
     (let w1 = setStatus ''App ready. Tap "Scan for Devices" to start.'' w
      in w1\<lparr>screen := (screen w1)\<lparr>isAppReady := True\<rparr>\<rparr>)\<close>

definition initializeApp :: "platform \<Rightarrow> MainScreen \<Rightarrow> world \<Rightarrow> world" where
  "initializeApp pf rendered w =
     (case requestPermissions pf rendered
             (checkBluetoothEnabled pf (getDeviceInfo pf (setStatus ''Initializing...'' w))) of
        (False, w1) \<Rightarrow>
          (let w2 = setStatus
                 ''Permissions required. Please grant Bluetooth and Location permissions.'' w1
           in w2\<lparr>screen := (screen w2)\<lparr>isAppReady := True\<rparr>\<rparr>)
      | (True, w1) \<Rightarrow>
          let w2 = fetchPairedDevices pf rendered w1
          in (case getItem_result pf (tick w2) ''lastConnectedDevice'' of
                Rejected _ \<Rightarrow>
                  setStatus ''Error initializing app. Please restart.''
                    (await pf (GetItem ''lastConnectedDevice'') w2)
              | Resolved lastAddress \<Rightarrow>
                  let w3 = await pf (GetItem ''lastConnectedDevice'') w2
                  in (case lastAddress of
                        None \<Rightarrow> app_ready w3
                      | Some a \<Rightarrow>
                          if a = [] then app_ready w3
                          else
                            (case getBondedDevices_result pf (tick w3) of
                               Rejected _ \<Rightarrow>
                                 setStatus ''Error initializing app. Please restart.''
                                   (await pf GetBondedDevices w3)
                             | Resolved paired \<Rightarrow>
                                 let w4 = await pf GetBondedDevices w3
                                 in (case find (\<lambda>d. address d = a) paired of
                                       None \<Rightarrow> app_ready w4
                                     | Some device \<Rightarrow>
                                         app_ready
                                           (connectToDevice pf rendered device
                                              (setStatus ''Reconnecting to last device...'' w4)))))))"

text \<open>
  The callback subscribed in \<^verbatim>\<open>connectToDevice\<close>:
  \<^verbatim>\<open>setStatus('Receiving data...'); if (appendLogRef.current) appendLogRef.current(event.data)\<close>.
  The log context is missing (\<open>None\<close>) when the screen runs outside a provider; the first
  argument is the clock reading that \<^verbatim>\<open>appendLog\<close> takes.
\<close>

definition dataReceived :: "string \<Rightarrow> string \<Rightarrow> world \<times> LogContext option \<Rightarrow> world \<times> LogContext option" where
  "dataReceived clock payload s =
     (setStatus ''Receiving data...'' (fst s), map_option (appendLog clock payload) (snd s))"

subsection \<open>The answer fetchPairedDevices gets about bonded devices\<close>

text \<open>
  How the raced \<^verbatim>\<open>getBondedDevices\<close> call of \<^verbatim>\<open>fetchPairedDevices\<close> settles, once the
  permission request and the read of the saved list are behind it.
\<close>

definition bonded_list_answer :: "platform \<Rightarrow> MainScreen \<Rightarrow> world \<Rightarrow> BluetoothDevice list settled" where
  "bonded_list_answer pf rendered w =
     (let w2 = snd (loadPairedDevices pf (snd (requestPermissions pf rendered w)))
      in race pf w2 10000 ''Timeout getting bonded devices'' (getBondedDevices_result pf (tick w2)))"

subsection \<open>Stages of the launch and connection attempts in a trace\<close>

text \<open>
  The state of the launch when the permission request has returned, when the paired
  devices have been fetched (just before the stored address is read), and when
  \<^verbatim>\<open>connectToDevice\<close> is called for the stored device.
\<close>

definition after_permissions :: "platform \<Rightarrow> MainScreen \<Rightarrow> world \<Rightarrow> bool \<times> world" where
  "after_permissions pf rendered w =
     requestPermissions pf rendered
       (checkBluetoothEnabled pf (getDeviceInfo pf (setStatus ''Initializing...'' w)))"

definition before_reconnect :: "platform \<Rightarrow> MainScreen \<Rightarrow> world \<Rightarrow> world" where
  "before_reconnect pf rendered w = fetchPairedDevices pf rendered (snd (after_permissions pf rendered w))"

definition reconnect_point :: "platform \<Rightarrow> MainScreen \<Rightarrow> world \<Rightarrow> world" where
  "reconnect_point pf rendered w =
     setStatus ''Reconnecting to last device...''
       (await pf GetBondedDevices
          (await pf (GetItem ''lastConnectedDevice'') (before_reconnect pf rendered w)))"

definition is_connect :: "platform_call \<Rightarrow> bool" where
  "is_connect c = (case c of Connect _ \<Rightarrow> True | _ \<Rightarrow> False)"

definition connects :: "world \<Rightarrow> platform_call list" where
  "connects w = filter is_connect (calls w)"

text \<open>
  \<^verbatim>\<open>connectToDevice\<close> begins with \<^verbatim>\<open>setStatus('Connecting...')\<close>, a text that no other
  function of the screen shows: the number of times it was shown is the number of runs of
  \<^verbatim>\<open>connectToDevice\<close> begun.
\<close>

definition attempts :: "world \<Rightarrow> nat" where
  "attempts w = length (filter (\<lambda>s. s = ''Connecting...'') (shown w))"

subsection \<open>How long awaited Bluetooth calls take\<close>



definition within_delay :: "platform_call \<times> nat \<Rightarrow> bool" where
  "within_delay e =
     (case fst e of
        GetBondedDevices \<Rightarrow> snd e \<le> 10000
      | PairDevice _ \<Rightarrow> snd e \<le> 15000
      | Connect _ \<Rightarrow> snd e \<le> 20000
      | StartDiscovery \<Rightarrow> snd e \<le> 30000
      | _ \<Rightarrow> True)"

text \<open>A launch to run: an Android 13 phone, every permission granted, one bonded sensor whose address is stored, and a connection that is refused.\<close>

definition sensor :: BluetoothDevice where
  "sensor = \<lparr>name = Some ''HC-05'', address = ''98:D3:31:F5:2A:10'', bonded = True\<rparr>"

definition refusing_platform :: platform where
  "refusing_platform =
     \<lparr>OS_android = True, Version = 33, Brand = Some ''google'', Model = Some ''Pixel'',
      constants_Version = Some 33,
      isBluetoothEnabled_result = (\<lambda>n. Resolved True),
      requestMultiple_result = (\<lambda>n permissions. Resolved (map (\<lambda>p. (p, Granted)) permissions)),
      getBondedDevices_result = (\<lambda>n. Resolved [sensor]),
      getItem_result = (\<lambda>n key. Resolved (Some ''98:D3:31:F5:2A:10'')),
      setItem_result = (\<lambda>n key v. Resolved ()),
      getJSON_result = (\<lambda>n key. Resolved None),
      pairDevice_result = (\<lambda>n a. Resolved True),
      connect_result = (\<lambda>n device. Rejected ''read failed, socket might closed or timeout''),
      cancelDiscovery_result = (\<lambda>n. Resolved True),
      startDiscovery_result = (\<lambda>n. Resolved (Some [])),
      latency = (\<lambda>n. 120)\<rparr>"

definition first_render :: MainScreen where
  "first_render =
     \<lparr>isBluetoothEnabled = False, isScanning = False, pairedDevices = [], unpairedDevices = [],
      connectedDevice = None, status = [], deviceInfo = None, isAppReady = False,
      permissionStatus = []\<rparr>"

definition launch :: world where
  "launch = \<lparr>screen = first_render, dataSubscription = None, calls = [], waits = [],
              shown = []\<rparr>"

text \<open>The same phone with a second bonded device, one with a generic name.\<close>

definition phone :: BluetoothDevice where
  "phone = \<lparr>name = Some ''My PHONE'', address = ''12:34:56:78:9A:BC'', bonded = True\<rparr>"

definition two_device_platform :: platform where
  "two_device_platform =
     refusing_platform\<lparr>getBondedDevices_result := (\<lambda>n. Resolved [sensor, phone])\<rparr>"



text \<open>
  A run from \<open>w\<close> to \<open>w'\<close> only adds waits, and every wait it adds for one of the four raced
  kinds of call keeps its delay.
\<close>

definition adds_timely_waits :: "world \<Rightarrow> world \<Rightarrow> bool" where
  "adds_timely_waits w w' =
     (prefix (waits w) (waits w') \<and> list_all within_delay (drop (length (waits w)) (waits w')))"

section \<open>Frame properties of the log context\<close>

text \<open>
  Claim C9.  Each operation of the log context changes only its own part of the state:
  startLogging and stopLogging set isLogging to true and false and keep the list;
  appendLog puts exactly one entry at the end of the list and keeps every earlier entry,
  their order and isLogging; clearLogs empties the list and keeps isLogging.
\<close>

theorem log_context_frame:
  "isLogging (startLogging c) \<and> logData (startLogging c) = logData c \<and>
   \<not> isLogging (stopLogging c) \<and> logData (stopLogging c) = logData c \<and>
   logData (appendLog now d c) = logData c @ [\<lparr>timestamp = now, data = d\<rparr>] \<and>
   isLogging (appendLog now d c) = isLogging c \<and>
   logData (clearLogs c) = [] \<and> isLogging (clearLogs c) = isLogging c"
  by (simp add: startLogging_def stopLogging_def appendLog_def clearLogs_def)

section \<open>Facts about the string helpers\<close>

lemma str_includes_sublist: "str_includes s sub \<longleftrightarrow> sublist sub s"
  by (induction s) (simp_all add: sublist_Cons_right)

lemma same_letter_map:
  "list_all2 same_letter u pat \<longleftrightarrow> map lower_unit u = map lower_unit pat"
proof -
  have "map lower_unit u = map lower_unit pat
          \<longleftrightarrow> list_all2 (=) (map lower_unit u) (map lower_unit pat)"
    by (simp add: list_all2_eq)
  also have "\<dots> \<longleftrightarrow> list_all2 (\<lambda>a b. lower_unit a = lower_unit b) u pat"
    by (simp add: list_all2_map1 list_all2_map2)
  finally show ?thesis
    by (simp add: same_letter_def [abs_def])
qed

lemma includes_lower_contains_ci:
  "str_includes (toLowerCase text) (toLowerCase pat) \<longleftrightarrow> contains_ci text pat"
proof
  assume "str_includes (toLowerCase text) (toLowerCase pat)"
  then obtain ps ss where "map lower_unit text = ps @ map lower_unit pat @ ss"
    by (auto simp: str_includes_sublist toLowerCase_def sublist_def)
  then obtain a r where a: "text = a @ r" and r: "map lower_unit r = map lower_unit pat @ ss"
    by (metis map_eq_append_conv)
  from r obtain u t where "r = u @ t" and "map lower_unit u = map lower_unit pat"
    by (metis map_eq_append_conv)
  with a show "contains_ci text pat"
    unfolding contains_ci_def same_letter_map by blast
next
  assume "contains_ci text pat"
  then obtain ps u ss where "text = ps @ u @ ss" and "map lower_unit u = map lower_unit pat"
    unfolding contains_ci_def same_letter_map by blast
  then have "map lower_unit text = map lower_unit ps @ map lower_unit pat @ map lower_unit ss"
    by simp
  then show "str_includes (toLowerCase text) (toLowerCase pat)"
    unfolding str_includes_sublist toLowerCase_def sublist_def by blast
qed

lemma contains_ci_Nil: "contains_ci [] pat \<longleftrightarrow> pat = []"
  by (auto simp: contains_ci_def)

lemma isDummyName_spec:
  "isDummyName device \<longleftrightarrow> \<not> list_all (\<lambda>g. \<not> contains_ci (name_text device) g) generic_names"
proof (cases "name device")
  case None
  then show ?thesis
    by (simp add: isDummyName_def name_text_def contains_ci_Nil generic_names_def dummyNames_def)
next
  case (Some n)
  have same: "dummyNames = generic_names"
    by (simp add: dummyNames_def generic_names_def)
  have nonempty: "\<forall>g \<in> set generic_names. g \<noteq> []"
    by (simp add: generic_names_def)
  show ?thesis
  proof (cases "n = []")
    case True
    with Some nonempty show ?thesis
      by (auto simp: isDummyName_def name_text_def contains_ci_Nil same list_ex_iff list_all_iff)
  next
    case False
    with Some show ?thesis
      by (simp add: isDummyName_def name_text_def same list_ex_iff list_all_iff
          includes_lower_contains_ci)
  qed
qed

lemma isGenericAddress_spec:
  "isGenericAddress device \<longleftrightarrow> \<not> list_all (\<lambda>a. \<not> sublist a (address device)) generic_addresses"
  by (cases "address device = []")
    (auto simp: isGenericAddress_def generic_addresses_def str_includes_sublist)

lemma realPairedDevices_spec: "realPairedDevices systemDevices = filter kept_by_spec systemDevices"
  unfolding realPairedDevices_def
  by (rule filter_cong)
    (auto simp: kept_by_spec_def isDummyName_spec isGenericAddress_spec)

section \<open>Facts about the regular-expression helpers\<close>

lemma try_lengths_Some:
  "try_lengths ns k s = Some r \<Longrightarrow> \<exists>n \<in> set ns. k (take n s) (drop n s) = Some r"
  by (induction ns) (auto split: option.splits)

lemma try_lengths_None:
  "try_lengths ns k s = None \<longleftrightarrow> (\<forall>n \<in> set ns. k (take n s) (drop n s) = None)"
  by (induction ns) (auto split: option.splits)

lemma greedy_Some:
  assumes "greedy cls lo hi k s = Some r"
  shows "\<exists>n. lo \<le> n \<and> n \<le> hi \<and> n \<le> length (takeWhile cls s) \<and>
             k (take n s) (drop n s) = Some r"
proof -
  from assms obtain n
    where "n \<in> set (rev [lo ..< Suc (min hi (length (takeWhile cls s)))])"
      and "k (take n s) (drop n s) = Some r"
    unfolding greedy_def by (blast dest: try_lengths_Some)
  then have "lo \<le> n \<and> n \<le> hi \<and> n \<le> length (takeWhile cls s) \<and>
      k (take n s) (drop n s) = Some r"
    by auto
  then show ?thesis ..
qed

lemma greedy_None:
  "greedy cls lo hi k s = None \<longleftrightarrow>
     (\<forall>n. lo \<le> n \<and> n \<le> hi \<and> n \<le> length (takeWhile cls s)
          \<longrightarrow> k (take n s) (drop n s) = None)"
  unfolding greedy_def try_lengths_None by auto

lemma take_within_takeWhile:
  assumes "n \<le> length (takeWhile P s)"
  shows "list_all P (take n s)"
proof -
  have "take n s = take n (takeWhile P s @ dropWhile P s)"
    by simp
  also have "\<dots> = take n (takeWhile P s)"
    using assms by (simp del: takeWhile_dropWhile_id)
  finally have "set (take n s) \<subseteq> set (takeWhile P s)"
    by (simp add: set_take_subset)
  then show ?thesis
    by (auto simp: list_all_iff dest: set_takeWhileD)
qed

lemma length_le_takeWhile:
  "list_all P ws \<Longrightarrow> length ws \<le> length (takeWhile P (ws @ rest))"
  by (simp add: list_all_iff)

lemma greedy_SomeD:
  assumes "greedy cls lo hi k s = Some r"
  shows "\<exists>g rest. s = g @ rest \<and> list_all cls g \<and> lo \<le> length g \<and> length g \<le> hi \<and>
           k g rest = Some r"
proof -
  from greedy_Some [OF assms] obtain n
    where n: "lo \<le> n" "n \<le> hi" "n \<le> length (takeWhile cls s)"
      and k: "k (take n s) (drop n s) = Some r"
    by blast
  have "length (takeWhile cls s) \<le> length s"
    by (rule length_takeWhile_le)
  with n have "length (take n s) = n"
    by simp
  with n k take_within_takeWhile [OF n(3)] have
    "s = take n s @ drop n s \<and> list_all cls (take n s) \<and> lo \<le> length (take n s) \<and>
     length (take n s) \<le> hi \<and> k (take n s) (drop n s) = Some r"
    by simp
  then show ?thesis
    by blast
qed

lemma greedy_complete:
  assumes "list_all cls g" and "lo \<le> length g" and "length g \<le> hi"
    and "k g rest \<noteq> None"
  shows "greedy cls lo hi k (g @ rest) \<noteq> None"
proof
  assume "greedy cls lo hi k (g @ rest) = None"
  moreover have "length g \<le> length (takeWhile cls (g @ rest))"
    using assms(1) by (rule length_le_takeWhile)
  ultimately have "k (take (length g) (g @ rest)) (drop (length g) (g @ rest)) = None"
    using assms(2,3) unfolding greedy_None by blast
  with assms(4) show False
    by simp
qed

lemma lit_Some: "lit c k s = Some r \<longleftrightarrow> (\<exists>xs. s = c # xs \<and> k xs = Some r)"
  by (auto simp: lit_def split: list.splits)

lemma lit_Cons: "lit c k (c # xs) = k xs"
  by (simp add: lit_def)

section \<open>The export's patterns against their wording\<close>

lemma isDataLine_matches: "isDataLine s \<longleftrightarrow> matches_D_prefix s"
proof
  assume "isDataLine s"
  then obtain r where "spaces_star (\<lambda>_ r. case r of
        c # d # _ \<Rightarrow> if (c = CHR ''D'' \<or> c = CHR ''d'') \<and> d = CHR '':'' then Some () else None
      | _ \<Rightarrow> None) s = Some r"
    unfolding isDataLine_def by blast
  then obtain n where n: "n \<le> length (takeWhile is_space s)"
    and k: "(case drop n s of
        c # d # _ \<Rightarrow> if (c = CHR ''D'' \<or> c = CHR ''d'') \<and> d = CHR '':'' then Some () else None
      | _ \<Rightarrow> None) = Some r"
    unfolding spaces_star_def by (blast dest: greedy_Some)
  from k obtain c rest where d: "drop n s = c # CHR '':'' # rest" and c: "c = CHR ''D'' \<or> c = CHR ''d''"
    by (auto split: list.splits if_splits)
  have "s = take n s @ c # CHR '':'' # rest"
    using d by (metis append_take_drop_id)
  with c take_within_takeWhile [OF n] show "matches_D_prefix s"
    unfolding matches_D_prefix_def by blast
next
  assume "matches_D_prefix s"
  then obtain ws c rest where s: "s = ws @ c # CHR '':'' # rest" and ws: "list_all is_space ws"
    and c: "c = CHR ''D'' \<or> c = CHR ''d''"
    unfolding matches_D_prefix_def by blast
  have le: "length ws \<le> length (takeWhile is_space s)"
    unfolding s using ws by (rule length_le_takeWhile)
  have "length ws \<le> length s"
    by (simp add: s)
  with le c show "isDataLine s"
    unfolding isDataLine_def spaces_star_def greedy_None
    by (auto simp: s intro!: exI [of _ "length ws"])
qed


lemma ppm_at_sound:
  assumes "ppm_at s = Some (g1, g2, g3)"
  shows "fields_here s g1 g2 g3"
proof -
  from assms have "\<exists>g rest. s = g @ rest \<and> list_all is_digit g \<and> 10 \<le> length g \<and> length g \<le> 13 \<and>
      lit CHR '','' (digits_plus (\<lambda>g2. lit CHR '','' (digits_plus (\<lambda>g3.
         lit CHR ''#'' (\<lambda>_. Some (g, g2, g3)))))) rest = Some (g1, g2, g3)"
    unfolding ppm_at_def digits_10_13_def by (rule greedy_SomeD)
  then obtain a r1 where a: "s = a @ CHR '','' # r1" "list_all is_digit a"
      "10 \<le> length a" "length a \<le> 13"
    and k1: "digits_plus (\<lambda>g2. lit CHR '','' (digits_plus (\<lambda>g3.
         lit CHR ''#'' (\<lambda>_. Some (a, g2, g3))))) r1 = Some (g1, g2, g3)"
    unfolding lit_Some by blast
  from k1 have "\<exists>g rest. r1 = g @ rest \<and> list_all is_digit g \<and> 1 \<le> length g \<and> length g \<le> length r1 \<and>
      lit CHR '','' (digits_plus (\<lambda>g3. lit CHR ''#'' (\<lambda>_. Some (a, g, g3)))) rest = Some (g1, g2, g3)"
    unfolding digits_plus_def [of _ r1] by (rule greedy_SomeD)
  then obtain b r2 where b: "r1 = b @ CHR '','' # r2" "list_all is_digit b" "1 \<le> length b"
    and k2: "digits_plus (\<lambda>g3. lit CHR ''#'' (\<lambda>_. Some (a, b, g3))) r2 = Some (g1, g2, g3)"
    unfolding lit_Some by blast
  from k2 have "\<exists>g rest. r2 = g @ rest \<and> list_all is_digit g \<and> 1 \<le> length g \<and> length g \<le> length r2 \<and>
      lit CHR ''#'' (\<lambda>_. Some (a, b, g)) rest = Some (g1, g2, g3)"
    unfolding digits_plus_def by (rule greedy_SomeD)
  then obtain c post where c: "r2 = c @ CHR ''#'' # post" "list_all is_digit c" "1 \<le> length c"
    and k3: "(a, b, c) = (g1, g2, g3)"
    unfolding lit_Some by blast
  from a b c k3 show ?thesis
    unfolding fields_here_def by auto
qed

lemma ppm_at_complete:
  assumes "fields_here s g1 g2 g3"
  shows "ppm_at s \<noteq> None"
proof -
  from assms obtain post where s: "s = g1 @ CHR '','' # g2 @ CHR '','' # g3 @ CHR ''#'' # post"
    and g1: "list_all is_digit g1" "10 \<le> length g1" "length g1 \<le> 13"
    and g2: "list_all is_digit g2" "1 \<le> length g2"
    and g3: "list_all is_digit g3" "1 \<le> length g3"
    unfolding fields_here_def by (auto simp: Suc_le_eq)
  have 3: "digits_plus (\<lambda>g. lit CHR ''#'' (\<lambda>_. Some (g1, g2, g))) (g3 @ CHR ''#'' # post) \<noteq> None"
    unfolding digits_plus_def using g3 by (intro greedy_complete) (simp_all add: lit_Cons)
  have 2: "digits_plus (\<lambda>g. lit CHR '','' (digits_plus (\<lambda>g'. lit CHR ''#'' (\<lambda>_. Some (g1, g, g')))))
             (g2 @ CHR '','' # g3 @ CHR ''#'' # post) \<noteq> None"
    unfolding digits_plus_def [of _ "g2 @ _"] using g2 3
    by (intro greedy_complete) (simp_all add: lit_Cons)
  show ?thesis
    unfolding ppm_at_def digits_10_13_def s using g1 2
    by (intro greedy_complete) (simp_all add: lit_Cons)
qed

lemma ppmMatch_sound:
  "ppmMatch s = Some (g1, g2, g3) \<Longrightarrow> \<exists>pre rest. s = pre @ rest \<and> fields_here rest g1 g2 g3"
proof (induction s)
  case Nil
  then show ?case
    by (auto dest: ppm_at_sound)
next
  case (Cons c cs)
  show ?case
  proof (cases "ppm_at (c # cs)")
    case None
    with Cons obtain pre rest where "cs = pre @ rest" "fields_here rest g1 g2 g3"
      by auto
    then have "c # cs = (c # pre) @ rest \<and> fields_here rest g1 g2 g3"
      by simp
    then show ?thesis
      by blast
  next
    case (Some r)
    with Cons.prems have "fields_here (c # cs) g1 g2 g3"
      by (auto dest: ppm_at_sound)
    then have "c # cs = [] @ (c # cs) \<and> fields_here (c # cs) g1 g2 g3"
      by simp
    then show ?thesis
      by blast
  qed
qed

lemma ppmMatch_None: "ppmMatch s = None \<longleftrightarrow> (\<forall>pre rest. s = pre @ rest \<longrightarrow> ppm_at rest = None)"
proof (induction s)
  case Nil
  then show ?case
    by simp
next
  case (Cons c cs)
  show ?case
  proof
    assume none: "ppmMatch (c # cs) = None"
    then have here: "ppm_at (c # cs) = None" and later: "ppmMatch cs = None"
      by (auto split: option.splits)
    show "\<forall>pre rest. c # cs = pre @ rest \<longrightarrow> ppm_at rest = None"
    proof (intro allI impI)
      fix pre rest
      assume "c # cs = pre @ rest"
      then show "ppm_at rest = None"
        using here later Cons.IH by (cases pre) auto
    qed
  next
    assume all: "\<forall>pre rest. c # cs = pre @ rest \<longrightarrow> ppm_at rest = None"
    then have "ppm_at (c # cs) = None"
      by (metis append_Nil)
    moreover have "ppmMatch cs = None"
      unfolding Cons.IH using all by (metis append_Cons)
    ultimately show "ppmMatch (c # cs) = None"
      by simp
  qed
qed

lemma ppmMatch_None_iff: "ppmMatch s = None \<longleftrightarrow> \<not> contains_fields s"
proof
  assume "ppmMatch s = None"
  then show "\<not> contains_fields s"
    unfolding contains_fields_def ppmMatch_None using ppm_at_complete by blast
next
  assume no: "\<not> contains_fields s"
  show "ppmMatch s = None"
  proof (rule ccontr)
    assume "ppmMatch s \<noteq> None"
    then obtain g1 g2 g3 where "ppmMatch s = Some (g1, g2, g3)"
      by auto
    from ppmMatch_sound [OF this] no show False
      unfolding contains_fields_def by blast
  qed
qed

lemma filtered_matches: "filtered logs = filter (\<lambda>item. matches_D_prefix (data item)) logs"
  by (simp add: filtered_def isDataLine_matches)

lemma length_push_rows: "length (push_rows dfmt tfmt n items) = length items"
  by (induction items arbitrary: n) simp_all

lemma nth_push_rows:
  "i < length items \<Longrightarrow> push_rows dfmt tfmt n items ! i = make_row dfmt tfmt (n + int i) (items ! i)"
proof (induction items arbitrary: n i)
  case Nil
  then show ?case by simp
next
  case (Cons item items)
  show ?case
  proof (cases i)
    case 0
    then show ?thesis by simp
  next
    case (Suc j)
    with Cons.prems have "j < length items"
      by simp
    from Cons.IH [OF this, of "n + 1"] Suc show ?thesis
      by (simp add: add.assoc)
  qed
qed

lemma make_row_serial: "hd (make_row dfmt tfmt n item) = toString n"
  by (simp add: make_row_def split: option.splits prod.splits)

lemma make_row_no_fields:
  "\<not> contains_fields (dataLine (data item)) \<Longrightarrow>
     make_row dfmt tfmt n item = [toString n, [], [], [], []]"
  by (simp add: make_row_def ppmMatch_None_iff [symmetric])

lemma make_row_fields:
  assumes "contains_fields (dataLine (data item))"
  shows "\<exists>g1 g2 g3 pre rest. dataLine (data item) = pre @ rest \<and> fields_here rest g1 g2 g3 \<and>
           make_row dfmt tfmt n item =
             [toString n, dfmt (parseInt g1 * 1000), tfmt (parseInt g1 * 1000), g2, g3]"
proof -
  from assms have "ppmMatch (dataLine (data item)) \<noteq> None"
    by (simp add: ppmMatch_None_iff)
  then obtain g1 g2 g3 where m: "ppmMatch (dataLine (data item)) = Some (g1, g2, g3)"
    by auto
  from ppmMatch_sound [OF m] obtain pre rest
    where "dataLine (data item) = pre @ rest" "fields_here rest g1 g2 g3"
    by blast
  moreover from m have "make_row dfmt tfmt n item =
      [toString n, dfmt (parseInt g1 * 1000), tfmt (parseInt g1 * 1000), g2, g3]"
    by (simp add: make_row_def)
  ultimately show ?thesis
    by blast
qed

section \<open>The exported worksheet\<close>

text \<open>
  Claim C10.  The worksheet starts with the fixed header row; after it, the number of
  data rows is the number of captured entries whose data matches \<^verbatim>\<open>^\s*D:\<close> with letter
  case ignored; the serial-number column holds '1', '2', ... in log order; and a matching
  entry whose remainder does not contain the pattern (10 to 13 digits),(digits),(digits)#
  still yields a row, with empty date, time, outlet-PPM and inlet-PPM cells.
\<close>

theorem excelData_rows:
  "\<exists>rows. excelData dfmt tfmt logs =
       [''Serial Number'', ''Date'', ''Time'', ''Outlet PPM'', ''Inlet PPM''] # rows \<and>
     length rows = length (filter (\<lambda>item. matches_D_prefix (data item)) logs) \<and>
     (\<forall>i < length rows. hd (rows ! i) = toString (int i + 1)) \<and>
     (\<forall>i < length rows.
        \<not> contains_fields (dataLine (data (filter (\<lambda>item. matches_D_prefix (data item)) logs ! i)))
          \<longrightarrow> rows ! i = [toString (int i + 1), [], [], [], []])"
proof -
  let ?rows = "push_rows dfmt tfmt 1 (filtered logs)"
  have len: "length ?rows = length (filter (\<lambda>item. matches_D_prefix (data item)) logs)"
    by (simp add: length_push_rows filtered_matches)
  have row: "?rows ! i = make_row dfmt tfmt (int i + 1) (filtered logs ! i)" if "i < length ?rows" for i
    using that nth_push_rows [of i "filtered logs" dfmt tfmt 1]
    by (simp add: length_push_rows add.commute)
  have "excelData dfmt tfmt logs =
      [''Serial Number'', ''Date'', ''Time'', ''Outlet PPM'', ''Inlet PPM''] # ?rows"
    by (simp add: excelData_def header_row_def)
  moreover have "\<forall>i < length ?rows. hd (?rows ! i) = toString (int i + 1)"
    by (simp add: row make_row_serial)
  moreover have "\<forall>i < length ?rows.
        \<not> contains_fields (dataLine (data (filter (\<lambda>item. matches_D_prefix (data item)) logs ! i)))
          \<longrightarrow> ?rows ! i = [toString (int i + 1), [], [], [], []]"
  proof (intro allI impI)
    fix i
    assume i: "i < length ?rows"
      and nf: "\<not> contains_fields
        (dataLine (data (filter (\<lambda>item. matches_D_prefix (data item)) logs ! i)))"
    have "\<not> contains_fields (dataLine (data (filtered logs ! i)))"
      unfolding filtered_matches by (rule nf)
    from make_row_no_fields [OF this] row [OF i]
    show "?rows ! i = [toString (int i + 1), [], [], [], []]"
      by simp
  qed
  ultimately show ?thesis
    using len by blast
qed

theorem excelData_rows_witness:
  "excelData (\<lambda>ms. ''date'') (\<lambda>ms. ''time'')
     [\<lparr>timestamp = [], data = ''D:1700000000,12,345#''\<rparr>,
      \<lparr>timestamp = [], data = ''OK''\<rparr>,
      \<lparr>timestamp = [], data = '' d:ready''\<rparr>] =
     [[''Serial Number'', ''Date'', ''Time'', ''Outlet PPM'', ''Inlet PPM''],
      [''1'', ''date'', ''time'', ''12'', ''345''],
      [''2'', [], [], [], []]] \<and>
   length (filter (\<lambda>item. matches_D_prefix (data item))
     [\<lparr>timestamp = [], data = ''D:1700000000,12,345#''\<rparr>,
      \<lparr>timestamp = [], data = ''OK''\<rparr>,
      \<lparr>timestamp = [], data = '' d:ready''\<rparr>]) = 2"
proof -
  let ?logs = "[\<lparr>timestamp = [], data = ''D:1700000000,12,345#''\<rparr>,
      \<lparr>timestamp = [], data = ''OK''\<rparr>,
      \<lparr>timestamp = [], data = '' d:ready''\<rparr>]"
  have e: "excelData (\<lambda>ms. ''date'') (\<lambda>ms. ''time'') ?logs =
     [[''Serial Number'', ''Date'', ''Time'', ''Outlet PPM'', ''Inlet PPM''],
      [''1'', ''date'', ''time'', ''12'', ''345''],
      [''2'', [], [], [], []]]"
    by code_simp
  from excelData_rows [of "\<lambda>ms. ''date''" "\<lambda>ms. ''time''" ?logs] obtain rows
    where r: "excelData (\<lambda>ms. ''date'') (\<lambda>ms. ''time'') ?logs =
        [''Serial Number'', ''Date'', ''Time'', ''Outlet PPM'', ''Inlet PPM''] # rows"
      and l: "length rows = length (filter (\<lambda>item. matches_D_prefix (data item)) ?logs)"
    by blast
  from r have "rows = [[''1'', ''date'', ''time'', ''12'', ''345''], [''2'', [], [], [], []]]"
    unfolding e by simp
  then have "length rows = 2"
    by simp
  with l have f: "length (filter (\<lambda>item. matches_D_prefix (data item)) ?logs) = 2"
    by (rule subst)
  from e f show ?thesis
    by (rule conjI)
qed

lemma digits_then_other:
  assumes "xs @ c # ys = xs' @ c' # ys'" and "list_all P xs" and "list_all P xs'"
    and "\<not> P c" and "\<not> P c'"
  shows "xs = xs' \<and> c = c' \<and> ys = ys'"
proof -
  have "takeWhile P (xs @ c # ys) = xs" "takeWhile P (xs' @ c' # ys') = xs'"
    using assms(2-5) by (simp_all add: list_all_iff takeWhile_tail)
  with assms(1) have "xs = xs'"
    by simp
  with assms(1) show ?thesis
    by simp
qed

lemma not_digit_separators [simp]: "\<not> is_digit CHR '',''" "\<not> is_digit CHR ''#''"
  by (simp_all add: is_digit_def)

lemma fields_here_unique:
  assumes "fields_here r g1 g2 g3" and "fields_here r h1 h2 h3"
  shows "g1 = h1 \<and> g2 = h2 \<and> g3 = h3"
proof -
  from assms obtain post post' where
    g: "r = g1 @ CHR '','' # g2 @ CHR '','' # g3 @ CHR ''#'' # post"
      "list_all is_digit g1" "list_all is_digit g2" "list_all is_digit g3" and
    h: "r = h1 @ CHR '','' # h2 @ CHR '','' # h3 @ CHR ''#'' # post'"
      "list_all is_digit h1" "list_all is_digit h2" "list_all is_digit h3"
    unfolding fields_here_def by blast
  from g(1) h(1) have
    "g1 @ CHR '','' # (g2 @ CHR '','' # g3 @ CHR ''#'' # post) =
     h1 @ CHR '','' # (h2 @ CHR '','' # h3 @ CHR ''#'' # post')"
    by simp
  from digits_then_other [OF this g(2) h(2)] have 1: "g1 = h1"
    and r2: "g2 @ CHR '','' # (g3 @ CHR ''#'' # post) = h2 @ CHR '','' # (h3 @ CHR ''#'' # post')"
    by simp_all
  from digits_then_other [OF r2 g(3) h(3)] have 2: "g2 = h2"
    and r3: "g3 @ CHR ''#'' # post = h3 @ CHR ''#'' # post'"
    by simp_all
  from digits_then_other [OF r3 g(4) h(4)] have "g3 = h3"
    by simp
  with 1 2 show ?thesis
    by simp
qed

lemma ppm_at_fields: "ppm_at r = Some (g1, g2, g3) \<longleftrightarrow> fields_here r g1 g2 g3"
proof
  assume "ppm_at r = Some (g1, g2, g3)"
  then show "fields_here r g1 g2 g3"
    by (rule ppm_at_sound)
next
  assume f: "fields_here r g1 g2 g3"
  then obtain h where "ppm_at r = Some h"
    using ppm_at_complete by blast
  moreover obtain h1 h2 h3 where "h = (h1, h2, h3)"
    by (cases h)
  ultimately have "ppm_at r = Some (h1, h2, h3)"
    by simp
  with f fields_here_unique [OF f ppm_at_sound, of h1 h2 h3] show "ppm_at r = Some (g1, g2, g3)"
    by simp
qed

lemma ppmMatch_first_fields: "ppmMatch s = Some (g1, g2, g3) \<Longrightarrow> first_fields s g1 g2 g3"
proof (induction s)
  case Nil
  then have "fields_here [] g1 g2 g3"
    by (simp add: ppm_at_fields)
  then show ?case
    unfolding first_fields_def by (intro exI [of _ "[]"]) simp
next
  case (Cons c cs)
  show ?case
  proof (cases "ppm_at (c # cs)")
    case (Some r)
    with Cons.prems have "fields_here (c # cs) g1 g2 g3"
      by (simp add: ppm_at_fields)
    then have "c # cs = [] @ (c # cs) \<and> fields_here (c # cs) g1 g2 g3 \<and>
        (\<forall>pre' rest'. c # cs = pre' @ rest' \<and> length pre' < length ([] :: string)
           \<longrightarrow> \<not> (\<exists>a b d. fields_here rest' a b d))"
      by simp
    then show ?thesis
      unfolding first_fields_def by blast
  next
    case None
    then have here: "\<not> fields_here (c # cs) a b d" for a b d
      by (auto dest: ppm_at_complete)
    from None Cons obtain pre rest where cs: "cs = pre @ rest" and f: "fields_here rest g1 g2 g3"
      and least: "\<forall>pre' rest'. cs = pre' @ rest' \<and> length pre' < length pre
           \<longrightarrow> \<not> (\<exists>a b d. fields_here rest' a b d)"
      unfolding first_fields_def by auto
    have "\<forall>pre' rest'. c # cs = pre' @ rest' \<and> length pre' < length (c # pre)
           \<longrightarrow> \<not> (\<exists>a b d. fields_here rest' a b d)"
    proof (intro allI impI)
      fix pre' rest'
      assume a: "c # cs = pre' @ rest' \<and> length pre' < length (c # pre)"
      show "\<not> (\<exists>a b d. fields_here rest' a b d)"
      proof (cases pre')
        case Nil
        with a here show ?thesis
          by simp
      next
        case (Cons x p)
        with a have "cs = p @ rest' \<and> length p < length pre"
          by simp
        with least show ?thesis
          by blast
      qed
    qed
    with cs f have "c # cs = (c # pre) @ rest \<and> fields_here rest g1 g2 g3 \<and>
        (\<forall>pre' rest'. c # cs = pre' @ rest' \<and> length pre' < length (c # pre)
           \<longrightarrow> \<not> (\<exists>a b d. fields_here rest' a b d))"
      by simp
    then show ?thesis
      unfolding first_fields_def by blast
  qed
qed

lemma first_fields_unique:
  assumes "first_fields s g1 g2 g3" and "first_fields s h1 h2 h3"
  shows "g1 = h1 \<and> g2 = h2 \<and> g3 = h3"
proof -
  from assms(1) obtain pre rest where 1: "s = pre @ rest" "fields_here rest g1 g2 g3"
    "\<forall>pre' rest'. s = pre' @ rest' \<and> length pre' < length pre
       \<longrightarrow> \<not> (\<exists>a b c. fields_here rest' a b c)"
    unfolding first_fields_def by blast
  from assms(2) obtain pre2 rest2 where 2: "s = pre2 @ rest2" "fields_here rest2 h1 h2 h3"
    "\<forall>pre' rest'. s = pre' @ rest' \<and> length pre' < length pre2
       \<longrightarrow> \<not> (\<exists>a b c. fields_here rest' a b c)"
    unfolding first_fields_def by blast
  from 1(1,2) 2(3) have "\<not> length pre < length pre2"
    by blast
  moreover from 2(1,2) 1(3) have "\<not> length pre2 < length pre"
    by blast
  ultimately have "length pre = length pre2"
    by simp
  with 1(1) 2(1) have "rest = rest2"
    by (metis append_eq_append_conv)
  with 1(2) 2(2) show ?thesis
    using fields_here_unique by blast
qed

lemma contains_first_fields: "contains_fields s \<Longrightarrow> \<exists>g1 g2 g3. first_fields s g1 g2 g3"
proof -
  assume "contains_fields s"
  then have "ppmMatch s \<noteq> None"
    by (simp add: ppmMatch_None_iff)
  then obtain g1 g2 g3 where "ppmMatch s = Some (g1, g2, g3)"
    by auto
  then show ?thesis
    using ppmMatch_first_fields by blast
qed

lemma first_fields_ppmMatch: "first_fields s g1 g2 g3 \<longleftrightarrow> ppmMatch s = Some (g1, g2, g3)"
proof
  assume f: "first_fields s g1 g2 g3"
  then have "contains_fields s"
    unfolding first_fields_def contains_fields_def by blast
  then have "ppmMatch s \<noteq> None"
    by (simp add: ppmMatch_None_iff)
  then obtain h1 h2 h3 where m: "ppmMatch s = Some (h1, h2, h3)"
    by auto
  from first_fields_unique [OF f ppmMatch_first_fields [OF m]] m
  show "ppmMatch s = Some (g1, g2, g3)"
    by simp
qed (rule ppmMatch_first_fields)

lemma make_row_first_fields:
  "first_fields (dataLine (data item)) g1 g2 g3 \<Longrightarrow>
     make_row dfmt tfmt n item =
       [toString n, dfmt (parseInt g1 * 1000), tfmt (parseInt g1 * 1000), g2, g3]"
  by (simp add: make_row_def first_fields_ppmMatch)

section \<open>Rows of the export that carry extracted fields\<close>

text \<open>
  Claim C1, as the specification states it, promises extracted fields for every entry
  prefixed 'D:'.  The entry 'D:hello' is exported although it holds no fields: its row has
  only the serial number.
\<close>

theorem excelData_row_without_fields:
  "matches_D_prefix ''D:hello'' \<and> \<not> contains_fields (dataLine ''D:hello'') \<and>
   excelData toString toString [\<lparr>timestamp = [], data = ''D:hello''\<rparr>] =
     [[''Serial Number'', ''Date'', ''Time'', ''Outlet PPM'', ''Inlet PPM''],
      [''1'', [], [], [], []]]"
proof -
  have "isDataLine ''D:hello''"
    by code_simp
  moreover have "ppmMatch (dataLine ''D:hello'') = None"
    by code_simp
  moreover have "excelData toString toString [\<lparr>timestamp = [], data = ''D:hello''\<rparr>] =
     [[''Serial Number'', ''Date'', ''Time'', ''Outlet PPM'', ''Inlet PPM''],
      [''1'', [], [], [], []]]"
    by code_simp
  ultimately show ?thesis
    by (simp only: isDataLine_matches ppmMatch_None_iff simp_thms)
qed

text \<open>
  Claim C1, amended.  The rows after the header correspond, in order, to the captured
  entries whose data matches \<^verbatim>\<open>^\s*D:\<close> with letter case ignored; entries that do not match
  produce no row.  For such an entry whose remainder contains the pattern
  (10 to 13 digits),(digits),(digits)#, the three fields are those of the leftmost
  occurrence of the pattern, and the row holds the serial number, the date and the time
  strings of the first field times 1000 (epoch seconds as milliseconds), and the second
  and third fields as outlet and inlet PPM.
\<close>

theorem excelData_fields:
  "\<exists>rows. excelData dfmt tfmt logs = header_row # rows \<and>
     length rows = length (filter (\<lambda>item. matches_D_prefix (data item)) logs) \<and>
     (\<forall>i < length rows.
        contains_fields (dataLine (data (filter (\<lambda>item. matches_D_prefix (data item)) logs ! i)))
          \<longrightarrow> (\<exists>g1 g2 g3.
                 first_fields
                   (dataLine (data (filter (\<lambda>item. matches_D_prefix (data item)) logs ! i)))
                   g1 g2 g3)) \<and>
     (\<forall>i < length rows. \<forall>g1 g2 g3.
        first_fields (dataLine (data (filter (\<lambda>item. matches_D_prefix (data item)) logs ! i)))
            g1 g2 g3
          \<longrightarrow> rows ! i = [toString (int i + 1), dfmt (parseInt g1 * 1000),
                         tfmt (parseInt g1 * 1000), g2, g3])"
proof -
  let ?rows = "push_rows dfmt tfmt 1 (filtered logs)"
  let ?line = "\<lambda>i. dataLine (data (filter (\<lambda>item. matches_D_prefix (data item)) logs ! i))"
  have len: "length ?rows = length (filter (\<lambda>item. matches_D_prefix (data item)) logs)"
    by (simp add: length_push_rows filtered_matches)
  have row: "?rows ! i = make_row dfmt tfmt (int i + 1) (filtered logs ! i)" if "i < length ?rows" for i
    using that nth_push_rows [of i "filtered logs" dfmt tfmt 1]
    by (simp add: length_push_rows add.commute)
  have exist: "\<forall>i < length ?rows. contains_fields (?line i)
      \<longrightarrow> (\<exists>g1 g2 g3. first_fields (?line i) g1 g2 g3)"
    using contains_first_fields by blast
  have "\<forall>i < length ?rows. \<forall>g1 g2 g3. first_fields (?line i) g1 g2 g3
      \<longrightarrow> ?rows ! i = [toString (int i + 1), dfmt (parseInt g1 * 1000),
                       tfmt (parseInt g1 * 1000), g2, g3]"
  proof (intro allI impI)
    fix i g1 g2 g3
    assume i: "i < length ?rows" and ff: "first_fields (?line i) g1 g2 g3"
    have "first_fields (dataLine (data (filtered logs ! i))) g1 g2 g3"
      unfolding filtered_matches by (rule ff)
    from make_row_first_fields [OF this, of dfmt tfmt "int i + 1"] row [OF i]
    show "?rows ! i = [toString (int i + 1), dfmt (parseInt g1 * 1000),
                       tfmt (parseInt g1 * 1000), g2, g3]"
      by simp
  qed
  moreover have "excelData dfmt tfmt logs = header_row # ?rows"
    by (simp add: excelData_def)
  ultimately show ?thesis
    using len exist by blast
qed

theorem excelData_fields_witness:
  "first_fields (dataLine ''D:17000000001,1,2#'') ''17000000001'' ''1'' ''2'' \<and>
   \<not> first_fields (dataLine ''D:17000000001,1,2#'') ''7000000001'' ''1'' ''2'' \<and>
   excelData toString toString
     [\<lparr>timestamp = [], data = ''OK''\<rparr>, \<lparr>timestamp = [], data = ''D:17000000001,1,2#''\<rparr>] =
     [header_row, [''1'', ''17000000001000'', ''17000000001000'', ''1'', ''2'']]"
proof -
  let ?e = "\<lparr>timestamp = [], data = ''D:17000000001,1,2#''\<rparr>"
  let ?logs = "[\<lparr>timestamp = [], data = ''OK''\<rparr>, ?e]"
  have flt: "filter (\<lambda>item. matches_D_prefix (data item)) ?logs = [?e]"
    unfolding isDataLine_matches [symmetric] by code_simp
  have "ppmMatch (dataLine ''D:17000000001,1,2#'') = Some (''17000000001'', ''1'', ''2'')"
    by code_simp
  then have ff: "first_fields (dataLine ''D:17000000001,1,2#'') ''17000000001'' ''1'' ''2''"
    by (simp only: first_fields_ppmMatch)
  have other: "\<not> first_fields (dataLine ''D:17000000001,1,2#'') ''7000000001'' ''1'' ''2''"
    using first_fields_unique [OF ff] by auto
  from excelData_fields [of toString toString ?logs] obtain rows
    where r: "excelData toString toString ?logs = header_row # rows"
      and l: "length rows = 1"
      and f: "\<forall>i < length rows. \<forall>g1 g2 g3.
        first_fields (dataLine (data ([?e] ! i))) g1 g2 g3
          \<longrightarrow> rows ! i = [toString (int i + 1), toString (parseInt g1 * 1000),
                         toString (parseInt g1 * 1000), g2, g3]"
    unfolding flt by auto
  from l obtain row where rows: "rows = [row]"
    by (cases rows) auto
  have evaluated: "toString 1 = ''1''" "toString (parseInt ''17000000001'' * 1000) = ''17000000001000''"
    by code_simp+
  from f l ff have "rows ! 0 = [toString (int 0 + 1), toString (parseInt ''17000000001'' * 1000),
      toString (parseInt ''17000000001'' * 1000), ''1'', ''2'']"
    by simp
  with rows have "row = [''1'', ''17000000001000'', ''17000000001000'', ''1'', ''2'']"
    by (simp add: evaluated)
  with r rows ff other show ?thesis
    by simp
qed

section \<open>Facts about the document-dialog module\<close>

lemma settlements_settle [simp]: "settlements (settle p s w) = settlements w @ [(p, s)]"
  by (simp add: settle_def)

lemma written_settle [simp]: "written (settle p s w) = written w"
  by (simp add: settle_def)

lemma saf_settle [simp]: "saf (settle p s w) = saf w"
  by (simp add: settle_def)

lemma write_and_settle_once:
  "\<exists>s. settlements (write_and_settle io p uri b w) = settlements w @ [(p, s)]"
  by (auto simp: write_and_settle_def split: open_outcome.splits sum.splits option.splits)

lemma saf_write_and_settle [simp]: "saf (write_and_settle io p uri b w) = saf w"
  by (auto simp: write_and_settle_def split: open_outcome.splits sum.splits option.splits)



section \<open>Exporting an empty and a non-empty log\<close>








lemma error_alert_neq [simp]:
  "error_alert msg \<noteq> Toast t" "save_requested (error_alert msg) = None"
  by (simp_all add: error_alert_def save_requested_def)




section \<open>Settling the promise of the document dialog\<close>

text \<open>
  Claim C8, as the specification states it, has NO_URI for every result without a URI and
  a resolved promise only after the bytes are written.  A result with code RESULT_OK and
  no intent carries no URI and is rejected with CANCELLED; and when the resolver returns
  no stream the promise resolves although nothing was written.
\<close>

theorem onActivityResult_without_intent_or_stream:
  "settlements (onActivityResult working_io 2025 RESULT_OK None
      (saveFileWithDialog True ''logs.xlsx'' ''UEsDBA=='' 7 saf_initial)) =
     [(7, Reject ''CANCELLED'' ''User cancelled'')] \<and>
   settlements (onActivityResult null_stream_io 2025 RESULT_OK (Some (Some ''content://doc/1''))
      (saveFileWithDialog True ''logs.xlsx'' ''UEsDBA=='' 7 saf_initial)) =
     [(7, Resolve ''content://doc/1'')] \<and>
   written (onActivityResult null_stream_io 2025 RESULT_OK (Some (Some ''content://doc/1''))
      (saveFileWithDialog True ''logs.xlsx'' ''UEsDBA=='' 7 saf_initial)) = []"
  by (simp add: onActivityResult_def saveFileWithDialog_def saf_initial_def working_io_def
      null_stream_io_def write_and_settle_def settle_def RESULT_OK_def)

text \<open>
  Claim C8, amended.  saveFileWithDialog rejects with NO_ACTIVITY when there is no current
  activity and otherwise starts a create-document dialog with request code 2025, settling
  nothing yet.  The dialog's result then settles the pending promise exactly once, and a
  later result settles nothing more.  The promise resolves with the chosen URI, after the
  decoded bytes are written to it, when the result is RESULT_OK with an intent that
  carries a URI for which the resolver opens a stream and nothing throws; it is rejected
  with NO_URI when the result is RESULT_OK with an intent whose URI is null, with
  WRITE_ERROR when opening, decoding or writing throws, and with CANCELLED when the
  result code is not RESULT_OK or the result has no intent.
\<close>

theorem saf_dialog_outcomes:
  "settlements (saveFileWithDialog False f b p w) =
     settlements w @ [(p, Reject ''NO_ACTIVITY'' ''No current activity'')] \<and>
   started (saveFileWithDialog False f b p w) = started w \<and>
   started (saveFileWithDialog True f b p w) = started w @ [(f, 2025)] \<and>
   settlements (saveFileWithDialog True f b p w) = settlements w \<and>
   (\<exists>s. settlements (onActivityResult io 2025 rc intent (saveFileWithDialog True f b p w)) =
          settlements w @ [(p, s)]) \<and>
   onActivityResult io' rq' rc' intent'
       (onActivityResult io 2025 rc intent (saveFileWithDialog True f b p w)) =
     onActivityResult io 2025 rc intent (saveFileWithDialog True f b p w) \<and>
   (rc = RESULT_OK \<and> intent = Some (Some uri) \<and> openOutputStream io uri = Opened \<and>
    base64_decode io b = Inr bytes \<and> write_throws io = None \<longrightarrow>
      settlements (onActivityResult io 2025 rc intent (saveFileWithDialog True f b p w)) =
        settlements w @ [(p, Resolve uri)] \<and>
      written (onActivityResult io 2025 rc intent (saveFileWithDialog True f b p w)) =
        written w @ [(uri, bytes)]) \<and>
   (rc = RESULT_OK \<and> intent = Some None \<longrightarrow>
      settlements (onActivityResult io 2025 rc intent (saveFileWithDialog True f b p w)) =
        settlements w @ [(p, Reject ''NO_URI'' ''No URI returned'')]) \<and>
   (rc = RESULT_OK \<and> intent = Some (Some uri) \<and>
    (openOutputStream io uri = OpenThrows msg \<or>
     (\<forall>m. openOutputStream io uri \<noteq> OpenThrows m) \<and> base64_decode io b = Inl msg \<or>
     openOutputStream io uri = Opened \<and> base64_decode io b = Inr bytes \<and>
       write_throws io = Some msg) \<longrightarrow>
      settlements (onActivityResult io 2025 rc intent (saveFileWithDialog True f b p w)) =
        settlements w @ [(p, Reject ''WRITE_ERROR'' msg)] \<and>
      written (onActivityResult io 2025 rc intent (saveFileWithDialog True f b p w)) = written w) \<and>
   (rc \<noteq> RESULT_OK \<or> intent = None \<longrightarrow>
      settlements (onActivityResult io 2025 rc intent (saveFileWithDialog True f b p w)) =
        settlements w @ [(p, Reject ''CANCELLED'' ''User cancelled'')])"
proof -
  let ?w = "saveFileWithDialog True f b p w"
  let ?r = "onActivityResult io 2025 rc intent ?w"
  have pending: "pendingPromise (saf ?w) = Some p" "pendingBase64 (saf ?w) = Some b"
    "settlements ?w = settlements w" "written ?w = written w"
    "started ?w = started w @ [(f, 2025)]"
    by (simp_all add: saveFileWithDialog_def)
  have no_activity: "settlements (saveFileWithDialog False f b p w) =
      settlements w @ [(p, Reject ''NO_ACTIVITY'' ''No current activity'')]"
    "started (saveFileWithDialog False f b p w) = started w"
    by (simp_all add: saveFileWithDialog_def settle_def)
  have once: "\<exists>s. settlements ?r = settlements w @ [(p, s)]"
    using write_and_settle_once [of io p _ b "?w\<lparr>saf := (saf ?w)\<lparr>pendingPromise := None\<rparr>\<rparr>"]
    by (auto simp: onActivityResult_def pending Let_def split: option.splits bool.splits)
  have cleared: "pendingPromise (saf ?r) = None"
    by (auto simp: onActivityResult_def pending Let_def split: option.splits bool.splits)
  then have later: "onActivityResult io' rq' rc' intent' ?r = ?r"
    by (simp add: onActivityResult_def)
  have resolved: "rc = RESULT_OK \<and> intent = Some (Some uri) \<and> openOutputStream io uri = Opened \<and>
      base64_decode io b = Inr bytes \<and> write_throws io = None \<longrightarrow>
      settlements ?r = settlements w @ [(p, Resolve uri)] \<and>
      written ?r = written w @ [(uri, bytes)]"
    by (simp add: onActivityResult_def pending Let_def write_and_settle_def)
  have no_uri: "rc = RESULT_OK \<and> intent = Some None \<longrightarrow>
      settlements ?r = settlements w @ [(p, Reject ''NO_URI'' ''No URI returned'')]"
    by (simp add: onActivityResult_def pending Let_def)
  have write_error: "rc = RESULT_OK \<and> intent = Some (Some uri) \<and>
      (openOutputStream io uri = OpenThrows msg \<or>
       (\<forall>m. openOutputStream io uri \<noteq> OpenThrows m) \<and> base64_decode io b = Inl msg \<or>
       openOutputStream io uri = Opened \<and> base64_decode io b = Inr bytes \<and>
         write_throws io = Some msg) \<longrightarrow>
      settlements ?r = settlements w @ [(p, Reject ''WRITE_ERROR'' msg)] \<and>
      written ?r = written w"
    by (auto simp: onActivityResult_def pending Let_def write_and_settle_def
        split: open_outcome.splits)
  have cancelled: "rc \<noteq> RESULT_OK \<or> intent = None \<longrightarrow>
      settlements ?r = settlements w @ [(p, Reject ''CANCELLED'' ''User cancelled'')]"
    by (auto simp: onActivityResult_def pending Let_def split: option.splits bool.splits)
  from no_activity pending(5,3) once later resolved no_uri write_error cancelled show ?thesis
    by (intro conjI)
qed

theorem saf_dialog_outcomes_witness:
  "settlements (onActivityResult working_io 2025 RESULT_OK (Some (Some ''content://doc/1''))
      (saveFileWithDialog True ''logs.xlsx'' ''UEsDBA=='' 7 saf_initial)) =
     [(7, Resolve ''content://doc/1'')] \<and>
   written (onActivityResult working_io 2025 RESULT_OK (Some (Some ''content://doc/1''))
      (saveFileWithDialog True ''logs.xlsx'' ''UEsDBA=='' 7 saf_initial)) =
     [(''content://doc/1'', ''UEsDBA=='')] \<and>
   settlements (onActivityResult working_io 2025 RESULT_OK (Some None)
      (saveFileWithDialog True ''logs.xlsx'' ''UEsDBA=='' 7 saf_initial)) =
     [(7, Reject ''NO_URI'' ''No URI returned'')] \<and>
   settlements (onActivityResult working_io 2025 0 (Some (Some ''content://doc/1''))
      (saveFileWithDialog True ''logs.xlsx'' ''UEsDBA=='' 7 saf_initial)) =
     [(7, Reject ''CANCELLED'' ''User cancelled'')]"
proof -
  have io: "openOutputStream working_io ''content://doc/1'' = Opened"
    "base64_decode working_io ''UEsDBA=='' = Inr ''UEsDBA==''" "write_throws working_io = None"
    by (simp_all add: working_io_def)
  have init: "settlements saf_initial = []" "written saf_initial = []"
    by (simp_all add: saf_initial_def)
  have rc: "(0::int) \<noteq> RESULT_OK"
    by (simp add: RESULT_OK_def)
  from saf_dialog_outcomes [where f = "''logs.xlsx''" and b = "''UEsDBA==''" and p = 7
      and w = saf_initial and io = working_io and rc = RESULT_OK
      and intent = "Some (Some ''content://doc/1'')" and uri = "''content://doc/1''"
      and bytes = "''UEsDBA==''"]
    saf_dialog_outcomes [where f = "''logs.xlsx''" and b = "''UEsDBA==''" and p = 7
      and w = saf_initial and io = working_io and rc = RESULT_OK and intent = "Some None"]
    saf_dialog_outcomes [where f = "''logs.xlsx''" and b = "''UEsDBA==''" and p = 7
      and w = saf_initial and io = working_io and rc = 0
      and intent = "Some (Some ''content://doc/1'')"]
    io init rc
  show ?thesis
    by simp
qed

section \<open>Timestamps in the lines the log view shows\<close>

lemma texts_of_terminal_lines: "map snd (terminal_lines entries) = map data entries"
proof -
  have "map (\<lambda>x. data (snd x)) (enumerate n entries) = map data entries" for n
    by (induction entries arbitrary: n) simp_all
  then show ?thesis
    by (simp add: terminal_lines_def case_prod_unfold comp_def)
qed

text \<open>
  Claim C2.  The log view is to show each standalone token of 10 to 13 digits whose value,
  read as epoch seconds or milliseconds, lies in the years 2000 to 2100 as a formatted UTC
  timestamp, and the rest of the line as it is.  The view shows every captured line as it
  was received: the line 'at 1700000000 ok' stays as it is, although the conversion
  function of the screen would turn it into 'at Tue Nov 14 22:13:20 2023 ok'.  That
  function, were it called, would still leave 3000000000 (24 January 2065 in seconds)
  alone, because it reads every number above 2,000,000,000 as milliseconds.
\<close>

theorem terminal_lines_keep_timestamps:
  "map snd (terminal_lines entries) = map data entries \<and>
   terminal_lines [\<lparr>timestamp = ''2024-05-06T07:08:00.000Z'', data = ''at 1700000000 ok''\<rparr>] =
     [(0, ''at 1700000000 ok'')] \<and>
   convertLineTimestamps ''at 1700000000 ok'' = ''at Tue Nov 14 22:13:20 2023 ok'' \<and>
   \<not> isEpoch 3000000000 \<and>
   convertLineTimestamps ''at 3000000000 ok'' = ''at 3000000000 ok''"
proof -
  have "terminal_lines [\<lparr>timestamp = ''2024-05-06T07:08:00.000Z'', data = ''at 1700000000 ok''\<rparr>] =
      [(0, ''at 1700000000 ok'')]"
    by (simp add: terminal_lines_def)
  moreover have "convertLineTimestamps ''at 1700000000 ok'' = ''at Tue Nov 14 22:13:20 2023 ok''"
    by code_simp
  moreover have "\<not> isEpoch 3000000000"
    by (simp add: isEpoch_def)
  moreover have "convertLineTimestamps ''at 3000000000 ok'' = ''at 3000000000 ok''"
    by code_simp
  ultimately show ?thesis
    using texts_of_terminal_lines by blast
qed

section \<open>Connection attempts made by the main screen\<close>

lemma connects_call: "connects (call c w) = connects w @ (if is_connect c then [c] else [])"
  by (simp add: connects_def call_def)

lemma connects_await: "connects (await pf c w) = connects w @ (if is_connect c then [c] else [])"
  by (simp add: connects_def await_def call_def)

lemma connects_await_raced:
  "connects (await_raced pf delay c w) = connects w @ (if is_connect c then [c] else [])"
  by (simp add: connects_def await_raced_def call_def)

lemma connects_setStatus [simp]: "connects (setStatus s w) = connects w"
  by (simp add: connects_def setStatus_def)

lemma connects_screen_update [simp]: "connects (w\<lparr>screen := s\<rparr>) = connects w"
  by (simp add: connects_def)

lemma connects_subscription_update [simp]: "connects (w\<lparr>dataSubscription := d\<rparr>) = connects w"
  by (simp add: connects_def)

lemma connects_other [simp]:
  "\<not> is_connect c \<Longrightarrow> connects (call c w) = connects w"
  "\<not> is_connect c \<Longrightarrow> connects (await pf c w) = connects w"
  "\<not> is_connect c \<Longrightarrow> connects (await_raced pf delay c w) = connects w"
  by (simp_all add: connects_call connects_await connects_await_raced)

lemma is_connect_simps [simp]:
  "is_connect (Connect d)" "\<not> is_connect IsBluetoothEnabled" "\<not> is_connect (RequestMultiple ps)"
  "\<not> is_connect GetBondedDevices" "\<not> is_connect (GetItem k)" "\<not> is_connect (SetItem k v)"
  "\<not> is_connect (GetJSON k)" "\<not> is_connect (SetJSON k ds)" "\<not> is_connect (PairDevice a)"
  "\<not> is_connect CancelDiscovery" "\<not> is_connect StartDiscovery" "\<not> is_connect (Sleep n)"
  "\<not> is_connect (OnDataReceived d)" "\<not> is_connect SubscriptionRemove"
  "\<not> is_connect (ToastShow t)" "\<not> is_connect (AlertShow t m)"
  by (simp_all add: is_connect_def)

lemma connects_getDeviceInfo [simp]: "connects (getDeviceInfo pf w) = connects w"
  by (simp add: getDeviceInfo_def)

lemma connects_checkBluetoothEnabled [simp]: "connects (checkBluetoothEnabled pf w) = connects w"
  by (simp add: checkBluetoothEnabled_def Let_def split: settled.splits)

lemma connects_showPermissionGuidance [simp]: "connects (showPermissionGuidance r w) = connects w"
  by (simp add: showPermissionGuidance_def Let_def)

lemma connects_requestPermissions [simp]: "connects (snd (requestPermissions pf r w)) = connects w"
  by (simp add: requestPermissions_def Let_def split: settled.splits)

lemma connects_loadPairedDevices [simp]: "connects (snd (loadPairedDevices pf w)) = connects w"
  by (simp add: loadPairedDevices_def split: settled.splits option.splits)

lemma connects_savePairedDevices [simp]: "connects (savePairedDevices pf ds w) = connects w"
  by (simp add: savePairedDevices_def)

lemma connects_fetchPairedDevices [simp]: "connects (fetchPairedDevices pf r w) = connects w"
proof -
  obtain g w1 where p: "requestPermissions pf r w = (g, w1)"
    by (cases "requestPermissions pf r w")
  then have 1: "connects w1 = connects w"
    using connects_requestPermissions [of pf r w] by simp
  obtain saved w2 where l: "loadPairedDevices pf w1 = (saved, w2)"
    by (cases "loadPairedDevices pf w1")
  then have 2: "connects w2 = connects w1"
    using connects_loadPairedDevices [of pf w1] by simp
  from p l 1 2 show ?thesis
    by (simp add: fetchPairedDevices_def Let_def split: settled.splits bool.splits)
qed

lemma connects_pair_first [simp]: "connects (snd (pair_first pf r d w)) = connects w"
  by (simp add: pair_first_def Let_def split: settled.splits)

lemma connects_connection_failed [simp]: "connects (connection_failed msg w) = connects w"
  by (simp add: connection_failed_def)

lemma connects_connect_and_subscribe:
  "connects (connect_and_subscribe pf d w) = connects w @ [Connect d]"
  by (simp add: connect_and_subscribe_def Let_def connects_call connects_await_raced
      split: settled.splits)

lemma connects_connectToDevice_bonded:
  assumes "fst (requestPermissions pf r (setStatus ''Connecting...'' w))" and "bonded d"
  shows "connects (connectToDevice pf r d w) = connects w @ [Connect d]"
proof -
  obtain w1 where p: "requestPermissions pf r (setStatus ''Connecting...'' w) = (True, w1)"
    using assms(1) by (cases "requestPermissions pf r (setStatus ''Connecting...'' w)") simp
  then have "connects w1 = connects w"
    using connects_requestPermissions [of pf r "setStatus ''Connecting...'' w"] by simp
  with p assms(2) show ?thesis
    by (simp add: connectToDevice_def connects_connect_and_subscribe)
qed

lemma tick_call [simp]: "tick (call c w) = Suc (tick w)"
  by (simp add: tick_def call_def)

lemma tick_await [simp]:
  "tick (await pf c w) = Suc (tick w)" "tick (await_raced pf delay c w) = Suc (tick w)"
  by (simp_all add: tick_def await_def await_raced_def call_def)

lemma tick_setStatus [simp]: "tick (setStatus s w) = tick w"
  by (simp add: tick_def setStatus_def)

lemma isAppReady_app_ready [simp]: "isAppReady (screen (app_ready w))"
  by (simp add: app_ready_def setStatus_def)

lemma connects_app_ready [simp]: "connects (app_ready w) = connects w"
  by (simp add: app_ready_def Let_def)

lemma attempts_frames [simp]:
  "attempts (call c w) = attempts w"
  "attempts (await pf c w) = attempts w"
  "attempts (await_raced pf delay c w) = attempts w"
  "attempts (w\<lparr>screen := s\<rparr>) = attempts w"
  "attempts (w\<lparr>dataSubscription := d\<rparr>) = attempts w"
  by (simp_all add: attempts_def call_def await_def await_raced_def)

lemma attempts_setStatus:
  "attempts (setStatus s w) = (if s = ''Connecting...'' then Suc (attempts w) else attempts w)"
  by (simp add: attempts_def setStatus_def)

lemma attempts_getDeviceInfo [simp]: "attempts (getDeviceInfo pf w) = attempts w"
  by (simp add: getDeviceInfo_def)

lemma attempts_checkBluetoothEnabled [simp]: "attempts (checkBluetoothEnabled pf w) = attempts w"
  by (simp add: checkBluetoothEnabled_def Let_def attempts_setStatus split: settled.splits)

lemma attempts_showPermissionGuidance [simp]: "attempts (showPermissionGuidance r w) = attempts w"
  by (simp add: showPermissionGuidance_def Let_def)

lemma attempts_requestPermissions [simp]: "attempts (snd (requestPermissions pf r w)) = attempts w"
  by (simp add: requestPermissions_def Let_def attempts_setStatus split: settled.splits)

lemma attempts_loadPairedDevices [simp]: "attempts (snd (loadPairedDevices pf w)) = attempts w"
  by (simp add: loadPairedDevices_def split: settled.splits option.splits)

lemma attempts_savePairedDevices [simp]: "attempts (savePairedDevices pf ds w) = attempts w"
  by (simp add: savePairedDevices_def)

lemma attempts_fetchPairedDevices [simp]: "attempts (fetchPairedDevices pf r w) = attempts w"
proof -
  obtain g w1 where p: "requestPermissions pf r w = (g, w1)"
    by (cases "requestPermissions pf r w")
  then have 1: "attempts w1 = attempts w"
    using attempts_requestPermissions [of pf r w] by simp
  obtain saved w2 where l: "loadPairedDevices pf w1 = (saved, w2)"
    by (cases "loadPairedDevices pf w1")
  then have 2: "attempts w2 = attempts w1"
    using attempts_loadPairedDevices [of pf w1] by simp
  from p l 1 2 show ?thesis
    by (simp add: fetchPairedDevices_def Let_def attempts_setStatus
        split: settled.splits bool.splits)
qed

lemma attempts_pair_first [simp]: "attempts (snd (pair_first pf r d w)) = attempts w"
  by (simp add: pair_first_def Let_def attempts_setStatus split: settled.splits)

lemma attempts_connect_and_subscribe [simp]:
  "attempts (connect_and_subscribe pf d w) = attempts w"
  by (simp add: connect_and_subscribe_def connection_failed_def Let_def attempts_setStatus
      split: settled.splits)

lemma attempts_connectToDevice: "attempts (connectToDevice pf r d w) = Suc (attempts w)"
proof -
  obtain g w1 where p: "requestPermissions pf r (setStatus ''Connecting...'' w) = (g, w1)"
    by (cases "requestPermissions pf r (setStatus ''Connecting...'' w)")
  then have 1: "attempts w1 = Suc (attempts w)"
    using attempts_requestPermissions [of pf r "setStatus ''Connecting...'' w"]
    by (simp add: attempts_setStatus)
  obtain go w2 where f: "pair_first pf r d w1 = (go, w2)"
    by (cases "pair_first pf r d w1")
  then have 2: "attempts w2 = attempts w1"
    using attempts_pair_first [of pf r d w1] by simp
  from p f 1 2 show ?thesis
    by (cases g; cases go; cases "bonded d") (simp_all add: connectToDevice_def attempts_setStatus)
qed

lemma connects_connectToDevice:
  "connects (connectToDevice pf r d w) = connects w \<or>
   connects (connectToDevice pf r d w) = connects w @ [Connect d]"
proof -
  obtain g w1 where p: "requestPermissions pf r (setStatus ''Connecting...'' w) = (g, w1)"
    by (cases "requestPermissions pf r (setStatus ''Connecting...'' w)")
  then have 1: "connects w1 = connects w"
    using connects_requestPermissions [of pf r "setStatus ''Connecting...'' w"] by simp
  obtain go w2 where f: "pair_first pf r d w1 = (go, w2)"
    by (cases "pair_first pf r d w1")
  then have 2: "connects w2 = connects w1"
    using connects_pair_first [of pf r d w1] by simp
  from p f 1 2 show ?thesis
    by (cases g; cases go; cases "bonded d")
      (simp_all add: connectToDevice_def connects_connect_and_subscribe)
qed

lemma attempts_app_ready [simp]: "attempts (app_ready w) = attempts w"
  by (simp add: app_ready_def Let_def attempts_setStatus)

lemma attempts_reconnect_point: "attempts (reconnect_point pf rendered w) = attempts w"
  by (simp add: reconnect_point_def before_reconnect_def after_permissions_def attempts_setStatus)

lemma initializeApp_reconnect_run:
  assumes "fst (after_permissions pf rendered w)"
    and "getItem_result pf (tick (before_reconnect pf rendered w)) ''lastConnectedDevice'' =
           Resolved (Some a)"
    and "a \<noteq> []"
    and "getBondedDevices_result pf (Suc (tick (before_reconnect pf rendered w))) = Resolved paired"
    and "find (\<lambda>d. address d = a) paired = Some device"
  shows "initializeApp pf rendered w =
           app_ready (connectToDevice pf rendered device (reconnect_point pf rendered w))"
proof -
  from assms(1) have perms: "requestPermissions pf rendered
      (checkBluetoothEnabled pf (getDeviceInfo pf (setStatus ''Initializing...'' w))) =
      (True, snd (after_permissions pf rendered w))"
    unfolding after_permissions_def by (simp add: prod_eq_iff)
  show ?thesis
    using assms(2-5) unfolding initializeApp_def perms reconnect_point_def
    by (simp add: Let_def before_reconnect_def [symmetric])
qed

lemma connects_reconnect_point: "connects (reconnect_point pf rendered w) = connects w"
  by (simp add: reconnect_point_def before_reconnect_def after_permissions_def)

section \<open>Reconnecting to the last device on launch\<close>

text \<open>
  Claim C6.  On launch, once permissions are granted, if the stored last-connected address
  is that of a device in the system's bonded list, the app makes exactly one connection
  attempt, to that device: the connection routine connectToDevice runs once.  That run
  calls the device's connect at most once, and exactly once when the routine is granted
  the permissions it asks for itself and the device is flagged bonded.  However the
  attempt ends (resolved, refused or timed out), nothing is retried and the app reaches
  the ready state.
\<close>

theorem initializeApp_reconnects_once:
  assumes "fst (after_permissions pf rendered w)"
    and "getItem_result pf (tick (before_reconnect pf rendered w)) ''lastConnectedDevice'' =
           Resolved (Some a)"
    and "a \<noteq> []"
    and "getBondedDevices_result pf (Suc (tick (before_reconnect pf rendered w))) = Resolved paired"
    and "find (\<lambda>d. address d = a) paired = Some device"
  shows "attempts (initializeApp pf rendered w) = Suc (attempts w) \<and>
         (connects (initializeApp pf rendered w) = connects w \<or>
          connects (initializeApp pf rendered w) = connects w @ [Connect device]) \<and>
         (bonded device \<and>
          fst (requestPermissions pf rendered
                 (setStatus ''Connecting...'' (reconnect_point pf rendered w)))
            \<longrightarrow> connects (initializeApp pf rendered w) = connects w @ [Connect device]) \<and>
         isAppReady (screen (initializeApp pf rendered w))"
proof -
  let ?w4 = "reconnect_point pf rendered w"
  have run: "initializeApp pf rendered w = app_ready (connectToDevice pf rendered device ?w4)"
    using assms by (rule initializeApp_reconnect_run)
  have once: "attempts (initializeApp pf rendered w) = Suc (attempts w)"
    unfolding run by (simp add: attempts_connectToDevice attempts_reconnect_point)
  have at_most: "connects (initializeApp pf rendered w) = connects w \<or>
      connects (initializeApp pf rendered w) = connects w @ [Connect device]"
    using connects_connectToDevice [of pf rendered device ?w4]
    unfolding run by (simp add: connects_reconnect_point)
  have exactly: "bonded device \<and>
      fst (requestPermissions pf rendered (setStatus ''Connecting...'' ?w4))
        \<longrightarrow> connects (initializeApp pf rendered w) = connects w @ [Connect device]"
    unfolding run by (simp add: connects_connectToDevice_bonded connects_reconnect_point)
  have ready: "isAppReady (screen (initializeApp pf rendered w))"
    unfolding run by simp
  from once at_most exactly ready show ?thesis
    by (intro conjI)
qed

theorem initializeApp_reconnects_once_witness:
  "fst (after_permissions refusing_platform first_render launch) \<and>
   find (\<lambda>d. address d = ''98:D3:31:F5:2A:10'') [sensor] = Some sensor \<and> bonded sensor \<and>
   (\<forall>n. connect_result refusing_platform n sensor =
      Rejected ''read failed, socket might closed or timeout'') \<and>
   attempts (initializeApp refusing_platform first_render launch) = 1 \<and>
   connects (initializeApp refusing_platform first_render launch) = [Connect sensor] \<and>
   isAppReady (screen (initializeApp refusing_platform first_render launch))"
proof -
  have granted: "fst (requestPermissions refusing_platform first_render w)" for w
    by (simp add: requestPermissions_def refusing_platform_def Let_def)
  then have launched: "fst (after_permissions refusing_platform first_render launch)"
    by (simp add: after_permissions_def)
  have answers:
    "getItem_result refusing_platform n ''lastConnectedDevice'' = Resolved (Some ''98:D3:31:F5:2A:10'')"
    "getBondedDevices_result refusing_platform n = Resolved [sensor]"
    "find (\<lambda>d. address d = ''98:D3:31:F5:2A:10'') [sensor] = Some sensor"
    "''98:D3:31:F5:2A:10'' \<noteq> []" "bonded sensor"
    "connect_result refusing_platform n sensor =
       Rejected ''read failed, socket might closed or timeout''" for n
    by (simp_all add: refusing_platform_def sensor_def)
  have none: "connects launch = []" "attempts launch = 0"
    by (simp_all add: connects_def attempts_def launch_def)
  from initializeApp_reconnects_once
    [OF launched answers(1) answers(4) answers(2) answers(3)] answers(5) granted
  have "attempts (initializeApp refusing_platform first_render launch) = 1"
    and "connects (initializeApp refusing_platform first_render launch) = [Connect sensor]"
    and "isAppReady (screen (initializeApp refusing_platform first_render launch))"
    by (simp_all add: none)
  with launched answers(3,5,6) show ?thesis
    by simp
qed

section \<open>Waits of the main screen for its awaited calls\<close>

lemma waits_simps [simp]:
  "waits (call c w) = waits w"
  "waits (setStatus s w) = waits w"
  "waits (setIsScanning b w) = waits w"
  "waits (setUnpairedDevices ds w) = waits w"
  "waits (await pf c w) = waits w @ [(c, latency pf (tick w))]"
  "waits (await_raced pf delay c w) = waits w @ [(c, min delay (latency pf (tick w)))]"
  by (simp_all add: call_def setStatus_def setIsScanning_def setUnpairedDevices_def await_def
      await_raced_def)

lemma waits_derived [simp]:
  "waits (getDeviceInfo pf w) = waits w"
  "waits (showPermissionGuidance r w) = waits w"
  "waits (connection_failed msg w) = waits w"
  "waits (scan_error msg w) = waits w"
  "waits (app_ready w) = waits w"
  by (simp_all add: getDeviceInfo_def showPermissionGuidance_def connection_failed_def
      scan_error_def app_ready_def Let_def)

lemma tick_frames [simp]:
  "tick (setIsScanning b w) = tick w" "tick (setUnpairedDevices ds w) = tick w"
  "tick (w\<lparr>screen := s\<rparr>) = tick w" "tick (w\<lparr>waits := ws\<rparr>) = tick w"
  by (simp_all add: tick_def setIsScanning_def setUnpairedDevices_def)

lemma status_frames [simp]:
  "status (screen (setStatus s w)) = s"
  "status (screen (call c w)) = status (screen w)"
  "status (screen (await pf c w)) = status (screen w)"
  "status (screen (await_raced pf delay c w)) = status (screen w)"
  by (simp_all add: setStatus_def call_def await_def await_raced_def)

lemma within_delay_simps [simp]:
  "within_delay (GetBondedDevices, n) \<longleftrightarrow> n \<le> 10000"
  "within_delay (PairDevice a, n) \<longleftrightarrow> n \<le> 15000"
  "within_delay (Connect d, n) \<longleftrightarrow> n \<le> 20000"
  "within_delay (StartDiscovery, n) \<longleftrightarrow> n \<le> 30000"
  "within_delay (IsBluetoothEnabled, n)" "within_delay (RequestMultiple ps, n)"
  "within_delay (GetItem k, n)" "within_delay (SetItem k v, n)" "within_delay (GetJSON k, n)"
  "within_delay (SetJSON k ds, n)" "within_delay (CancelDiscovery, n)"
  "within_delay (Sleep m, n)"
  by (simp_all add: within_delay_def)

lemma timely_iff:
  "adds_timely_waits w w' \<longleftrightarrow> (\<exists>ws. waits w' = waits w @ ws \<and> list_all within_delay ws)"
  by (auto simp: adds_timely_waits_def prefix_def)

lemma timely_refl [simp]: "adds_timely_waits w w"
  by (simp add: timely_iff)













section \<open>Awaited Bluetooth calls and their timers\<close>




section \<open>Device data and the logging switch\<close>

text \<open>
  Claim C3.  A log entry is appended when a payload arrives while logging is active, and
  the list is to stay unchanged when a payload arrives while logging is inactive.  The
  subscribed callback never reads the logging switch: after stopLogging, an arriving
  payload is appended all the same.
\<close>

theorem dataReceived_ignores_isLogging:
  "isLogging (startLogging ctx) \<and>
   map_option logData (snd (dataReceived clock payload (w, Some (startLogging ctx)))) =
     Some (logData ctx @ [\<lparr>timestamp = clock, data = payload\<rparr>]) \<and>
   \<not> isLogging (stopLogging ctx) \<and>
   map_option logData (snd (dataReceived clock payload (w, Some (stopLogging ctx)))) =
     Some (logData ctx @ [\<lparr>timestamp = clock, data = payload\<rparr>])"
  by (simp add: dataReceived_def startLogging_def stopLogging_def appendLog_def)

section \<open>The paired-device filter keeps exactly the devices the specification names\<close>

lemma pairedDevices_fetchPairedDevices:
  assumes "fst (requestPermissions pf rendered w)"
    and "bonded_list_answer pf rendered w = Resolved systemDevices"
  shows "pairedDevices (screen (fetchPairedDevices pf rendered w)) = realPairedDevices systemDevices"
proof -
  obtain w1 where p: "requestPermissions pf rendered w = (True, w1)"
    using assms(1) by (cases "requestPermissions pf rendered w") simp
  obtain saved w2 where l: "loadPairedDevices pf w1 = (saved, w2)"
    by (cases "loadPairedDevices pf w1")
  from assms(2) p l
  have "race pf w2 10000 ''Timeout getting bonded devices'' (getBondedDevices_result pf (tick w2)) =
      Resolved systemDevices"
    by (simp add: bonded_list_answer_def)
  with p l show ?thesis
    by (simp add: fetchPairedDevices_def Let_def setStatus_def savePairedDevices_def call_def
        await_def await_raced_def)
qed

text \<open>
  Claim C4.  When fetchPairedDevices has its permissions and the system answers with its
  bonded-device list in time, the devices it keeps are, in the system's order, exactly
  those that are bonded, whose name contains none of the ten generic names as a substring
  (letter case ignored) and whose address contains none of the four generic address
  substrings.
\<close>

theorem fetchPairedDevices_keeps:
  assumes "fst (requestPermissions pf rendered w)"
    and "bonded_list_answer pf rendered w = Resolved systemDevices"
  shows "pairedDevices (screen (fetchPairedDevices pf rendered w)) =
           filter kept_by_spec systemDevices \<and>
         (device \<in> set (pairedDevices (screen (fetchPairedDevices pf rendered w)))
            \<longleftrightarrow> device \<in> set systemDevices \<and> kept_by_spec device)"
  using pairedDevices_fetchPairedDevices [OF assms] by (simp add: realPairedDevices_spec)

theorem fetchPairedDevices_keeps_witness:
  "fst (requestPermissions two_device_platform first_render launch) \<and>
   bonded_list_answer two_device_platform first_render launch = Resolved [sensor, phone] \<and>
   pairedDevices (screen (fetchPairedDevices two_device_platform first_render launch)) = [sensor] \<and>
   kept_by_spec sensor \<and> \<not> kept_by_spec phone"
proof -
  have granted: "fst (requestPermissions two_device_platform first_render launch)"
    by (simp add: requestPermissions_def two_device_platform_def refusing_platform_def Let_def)
  have answer: "bonded_list_answer two_device_platform first_render launch = Resolved [sensor, phone]"
    by (simp add: bonded_list_answer_def race_def two_device_platform_def refusing_platform_def)
  have real: "realPairedDevices [sensor, phone] = [sensor]"
    by code_simp
  have kept: "pairedDevices (screen (fetchPairedDevices two_device_platform first_render launch)) =
      [sensor]"
    using pairedDevices_fetchPairedDevices [OF granted answer] real by simp
  have "sensor \<noteq> phone"
    by (simp add: sensor_def phone_def)
  moreover from fetchPairedDevices_keeps [OF granted answer, of sensor]
  have "sensor \<in> set [sensor] \<longleftrightarrow> sensor \<in> set [sensor, phone] \<and> kept_by_spec sensor"
    unfolding kept by (rule conjunct2)
  moreover from fetchPairedDevices_keeps [OF granted answer, of phone]
  have "phone \<in> set [sensor] \<longleftrightarrow> phone \<in> set [sensor, phone] \<and> kept_by_spec phone"
    unfolding kept by (rule conjunct2)
  ultimately have "kept_by_spec sensor \<and> \<not> kept_by_spec phone"
    by auto
  with granted answer kept show ?thesis
    by simp
qed

end
